theory Spec2Isabelle
  imports Complex_Main
begin

section \<open>Shared vocabulary\<close>

text \<open>
  The load-generation scripts are Python. Exceptions are values of \<open>py_error\<close>; a
  function that can raise returns \<open>py_error + 'a\<close> with \<open>Inl\<close> for the exception.
  Latencies are Python floats (milliseconds); they are modelled as exact rationals, so
  nothing below depends on rounding. Counters are Python ints that only ever grow from
  zero, modelled as \<open>nat\<close>.
\<close>

datatype py_error = ZeroDivisionError | ValueError | IndexError | SocketTimeout

text \<open>Python's true division \<open>a / b\<close> on numbers: raises on a zero divisor.\<close>

definition py_truediv :: "rat \<Rightarrow> rat \<Rightarrow> py_error + rat" where
  "py_truediv a b = (if b = 0 then Inl ZeroDivisionError else Inr (a / b))"

section \<open>Statistics recording\<close>

subsection \<open>sustained\_load.py: class IntervalStats\<close>

record IntervalStats =
  iv_completed :: nat
  iv_failed :: nat
  iv_latencies :: "rat list"
  iv_bytes_received :: nat

definition IntervalStats_init :: IntervalStats where
  "IntervalStats_init = \<lparr>iv_completed = 0, iv_failed = 0, iv_latencies = [], iv_bytes_received = 0\<rparr>"

text \<open>\<open>IntervalStats.record(self, success, latency, bytes_recv)\<close>\<close>

definition IntervalStats_record :: "bool \<Rightarrow> rat \<Rightarrow> nat \<Rightarrow> IntervalStats \<Rightarrow> IntervalStats" where
  "IntervalStats_record success latency bytes_recv self =
     (if success
      then self\<lparr>iv_completed := iv_completed self + 1,
                iv_latencies := iv_latencies self @ [latency],
                iv_bytes_received := iv_bytes_received self + bytes_recv\<rparr>
      else self\<lparr>iv_failed := iv_failed self + 1\<rparr>)"

text \<open>
  One attempt of \<open>worker\<close> in sustained\_load.py, as far as recording goes. The
  attempt either raises somewhere (connect, sendall, recv), or \<open>recv(4096)\<close> returns
  a number of bytes after \<open>elapsed\<close> milliseconds; zero bytes means the peer closed.
\<close>

datatype attempt = Raised | Received nat rat

fun sustained_worker_attempt :: "attempt \<Rightarrow> IntervalStats \<Rightarrow> IntervalStats" where
  "sustained_worker_attempt (Received n elapsed) stats =
     (if n \<noteq> 0 then IntervalStats_record True elapsed n stats
      else IntervalStats_record False 0 0 stats)"
| "sustained_worker_attempt Raised stats = IntervalStats_record False 0 0 stats"

subsection \<open>endpoint\_mix.py: class EndpointStats\<close>

record endpoint_entry =
  ep_count :: nat
  ep_latencies :: "rat list"
  ep_bytes :: nat
  ep_errors :: nat

text \<open>The \<open>defaultdict\<close> factory of \<open>EndpointStats.stats\<close>.\<close>

definition endpoint_default :: endpoint_entry where
  "endpoint_default = \<lparr>ep_count = 0, ep_latencies = [], ep_bytes = 0, ep_errors = 0\<rparr>"

type_synonym EndpointStats = "string \<rightharpoonup> endpoint_entry"

text \<open>\<open>self.stats[endpoint]\<close> on a \<open>defaultdict\<close>: a missing key reads as the default.\<close>

definition ep_get :: "EndpointStats \<Rightarrow> string \<Rightarrow> endpoint_entry" where
  "ep_get stats endpoint = (case stats endpoint of None \<Rightarrow> endpoint_default | Some s \<Rightarrow> s)"

text \<open>\<open>EndpointStats.record(self, endpoint, latency, bytes_recv, success)\<close>\<close>

definition EndpointStats_record ::
  "string \<Rightarrow> rat \<Rightarrow> nat \<Rightarrow> bool \<Rightarrow> EndpointStats \<Rightarrow> EndpointStats" where
  "EndpointStats_record endpoint latency bytes_recv success stats =
     (let s = ep_get stats endpoint in
      if success
      then stats(endpoint \<mapsto> s\<lparr>ep_count := ep_count s + 1,
                                 ep_latencies := ep_latencies s @ [latency],
                                 ep_bytes := ep_bytes s + bytes_recv\<rparr>)
      else stats(endpoint \<mapsto> s\<lparr>ep_errors := ep_errors s + 1\<rparr>))"

text \<open>One attempt of \<open>worker\<close> in endpoint\_mix.py (\<open>recv(65536)\<close>).\<close>

fun endpoint_worker_attempt :: "string \<Rightarrow> attempt \<Rightarrow> EndpointStats \<Rightarrow> EndpointStats" where
  "endpoint_worker_attempt endpoint (Received n latency) stats =
     (if n \<noteq> 0 then EndpointStats_record endpoint latency n True stats
      else EndpointStats_record endpoint 0 0 False stats)"
| "endpoint_worker_attempt endpoint Raised stats = EndpointStats_record endpoint 0 0 False stats"

subsection \<open>gradual\_stress.py: make\_request and the recording block of stress\_test\<close>

record StressResult =
  sr_completed :: nat
  sr_failed :: nat
  sr_latencies :: "rat list"
  sr_bytes_received :: nat

definition StressResult_init :: StressResult where
  "StressResult_init = \<lparr>sr_completed = 0, sr_failed = 0, sr_latencies = [], sr_bytes_received = 0\<rparr>"

text \<open>
  \<open>make_request\<close> reads until the peer closes and returns \<open>(True, elapsed, len(response))\<close>,
  also for an empty response; any exception gives \<open>(False, 0, 0)\<close>.
\<close>

fun make_request :: "attempt \<Rightarrow> bool \<times> rat \<times> nat" where
  "make_request (Received n elapsed) = (True, elapsed, n)"
| "make_request Raised = (False, 0, 0)"

text \<open>The body of \<open>worker\<close> inside \<open>stress_test\<close>, after a request index was popped.\<close>

definition stress_test_record :: "bool \<times> rat \<times> nat \<Rightarrow> StressResult \<Rightarrow> StressResult" where
  "stress_test_record r result =
     (case r of (success, latency, bytes_recv) \<Rightarrow>
        if success
        then result\<lparr>sr_completed := sr_completed result + 1,
                    sr_latencies := sr_latencies result @ [latency],
                    sr_bytes_received := sr_bytes_received result + bytes_recv\<rparr>
        else result\<lparr>sr_failed := sr_failed result + 1\<rparr>)"

definition gradual_worker_attempt :: "attempt \<Rightarrow> StressResult \<Rightarrow> StressResult" where
  "gradual_worker_attempt a result = stress_test_record (make_request a) result"

subsection \<open>final\_benchmark.py, extreme\_stress.py, ultra\_stress.py: capped latency lists\<close>

record bench_stats =
  b_completed :: nat
  b_failed :: nat
  b_latencies :: "rat list"
  b_bytes :: nat

definition bench_stats_init :: bench_stats where
  "bench_stats_init = \<lparr>b_completed = 0, b_failed = 0, b_latencies = [], b_bytes = 0\<rparr>"

text \<open>
  The \<open>with lock:\<close> block of final\_benchmark.py's worker after a response was read
  (\<open>n\<close> is \<open>len(response)\<close>), and its \<open>except\<close> block.
\<close>

definition final_benchmark_record :: "attempt \<Rightarrow> bench_stats \<Rightarrow> bench_stats" where
  "final_benchmark_record a stats =
     (case a of
        Received n elapsed \<Rightarrow>
          stats\<lparr>b_completed := b_completed stats + 1,
                b_bytes := b_bytes stats + n,
                b_latencies := (if length (b_latencies stats) < 10000
                                then b_latencies stats @ [elapsed] else b_latencies stats)\<rparr>
      | Raised \<Rightarrow> stats\<lparr>b_failed := b_failed stats + 1\<rparr>)"

text \<open>
  The success block of \<open>worker\<close> in extreme\_stress.py and ultra\_stress.py, restricted
  to the counters and the latency list (\<open>n\<close> is \<open>body_len\<close>), and the \<open>except\<close> block.
\<close>

definition extreme_record :: "attempt \<Rightarrow> bench_stats \<Rightarrow> bench_stats" where
  "extreme_record a stats =
     (case a of
        Received n elapsed \<Rightarrow>
          stats\<lparr>b_completed := b_completed stats + 1,
                b_bytes := b_bytes stats + n,
                b_latencies := (if length (b_latencies stats) < 100000
                                then b_latencies stats @ [elapsed] else b_latencies stats)\<rparr>
      | Raised \<Rightarrow> stats\<lparr>b_failed := b_failed stats + 1\<rparr>)"

subsection \<open>spike\_test.py: class Stats and the latency list of print\_phase\_stats\<close>

type_synonym spike_sample = "rat \<times> rat \<times> bool"

text \<open>\<open>Stats.record(self, latency, success)\<close>; \<open>now\<close> is the value of \<open>time.time()\<close>.\<close>

definition Stats_record :: "rat \<Rightarrow> rat \<Rightarrow> bool \<Rightarrow> spike_sample list \<Rightarrow> spike_sample list" where
  "Stats_record now latency success data = data @ [(now, latency, success)]"

text \<open>\<open>latencies = [l for _, l, s in window if s]\<close>\<close>

definition phase_latencies :: "spike_sample list \<Rightarrow> rat list" where
  "phase_latencies window = map (\<lambda>(t, l, s). l) (filter (\<lambda>(t, l, s). s) window)"

text \<open>
  One attempt of \<open>make_request\<close> in spike\_test.py: the response is read until the peer
  closes; success is \<open>len(response) > 0\<close>; an exception records \<open>(0, False)\<close>.
\<close>

fun spike_worker_attempt :: "rat \<Rightarrow> attempt \<Rightarrow> spike_sample list \<Rightarrow> spike_sample list" where
  "spike_worker_attempt now (Received n latency) data = Stats_record now latency (n > 0) data"
| "spike_worker_attempt now Raised data = Stats_record now 0 False data"

section \<open>Final reports\<close>

text \<open>
  A report is the list of items printed so far, and the exception that ended it, if any.
  Only the numbers are kept; formatting is not modelled.
\<close>

datatype report_item =
    Duration rat | TotalRequests nat | Failed nat | Completed nat
  | SuccessRate rat | SuccessRateNA | Throughput rat | DataReceived nat | Bandwidth rat

type_synonym report = "report_item list \<times> py_error option"

text \<open>
  sustained\_load.py, \<open>run_sustained_test\<close>, the final report down to the data line:
  \<open>100*total_completed/(total_completed+total_failed)\<close> and \<open>total_completed/elapsed\<close>.
\<close>

definition sustained_final_report :: "nat \<Rightarrow> nat \<Rightarrow> nat \<Rightarrow> rat \<Rightarrow> report" where
  "sustained_final_report total_completed total_failed total_bytes elapsed =
     (let out = [Duration elapsed, TotalRequests total_completed, Failed total_failed] in
      case py_truediv (of_nat (100 * total_completed)) (of_nat (total_completed + total_failed)) of
        Inl e \<Rightarrow> (out, Some e)
      | Inr rate \<Rightarrow>
          (case py_truediv (of_nat total_completed) elapsed of
             Inl e \<Rightarrow> (out @ [SuccessRate rate], Some e)
           | Inr tp \<Rightarrow> (out @ [SuccessRate rate, Throughput tp, DataReceived total_bytes], None)))"

text \<open>
  spike\_test.py, \<open>run_spike_test\<close>, the overall block: \<open>all_data\<close> is the list of
  \<open>(timestamp, latency, success)\<close> samples; \<open>100*total_success/len(all_data)\<close>.
\<close>

definition spike_overall_report :: "(rat \<times> rat \<times> bool) list \<Rightarrow> report" where
  "spike_overall_report all_data =
     (let total_success = length (filter (\<lambda>(t, l, s). s) all_data);
          total_fail = length all_data - total_success;
          out = [TotalRequests (length all_data), Completed total_success, Failed total_fail] in
      case py_truediv (of_nat (100 * total_success)) (of_nat (length all_data)) of
        Inl e \<Rightarrow> (out, Some e)
      | Inr rate \<Rightarrow> (out @ [SuccessRate rate], None))"

text \<open>
  bomb\_test.py, \<open>main\<close>, the results block:
  \<open>stats['completed']/(stats['completed']+stats['failed'])*100\<close>, then
  \<open>stats['completed']/elapsed\<close>.
\<close>

definition bomb_results_report :: "nat \<Rightarrow> nat \<Rightarrow> nat \<Rightarrow> rat \<Rightarrow> report" where
  "bomb_results_report c f bytes elapsed =
     (let out = [Duration elapsed, Completed c, Failed f] in
      case py_truediv (of_nat c) (of_nat (c + f)) of
        Inl e \<Rightarrow> (out, Some e)
      | Inr q \<Rightarrow>
          (case py_truediv (of_nat c) elapsed of
             Inl e \<Rightarrow> (out @ [SuccessRate (q * 100)], Some e)
           | Inr tp \<Rightarrow> (out @ [SuccessRate (q * 100), Throughput tp, DataReceived bytes], None)))"

text \<open>
  stress\_test.py, \<open>final_report\<close>, down to the bandwidth line. The success rate is
  guarded (\<open>if (completed+failed) > 0 else "N/A"\<close>); the lines after the bandwidth
  (latency statistics, per-endpoint table) are guarded by non-emptiness and do not divide.
\<close>

definition stress_test_final_report :: "nat \<Rightarrow> nat \<Rightarrow> nat \<Rightarrow> rat \<Rightarrow> report" where
  "stress_test_final_report completed failed bytes_recv elapsed =
     (let out = [Duration elapsed, Completed completed, Failed failed,
                 (if completed + failed > 0
                  then SuccessRate (of_nat completed / of_nat (completed + failed) * 100)
                  else SuccessRateNA)] in
      case py_truediv (of_nat completed) elapsed of
        Inl e \<Rightarrow> (out, Some e)
      | Inr tp \<Rightarrow>
          (case py_truediv (of_nat bytes_recv / 1024 / 1024) elapsed of
             Inl e \<Rightarrow> (out @ [Throughput tp, DataReceived bytes_recv], Some e)
           | Inr bw \<Rightarrow> (out @ [Throughput tp, DataReceived bytes_recv, Bandwidth bw], None)))"

section \<open>Pre-flight probe and exit status\<close>

text \<open>
  The target is an oracle \<open>probe\<close>: \<open>probe i\<close> tells whether the \<open>i\<close>-th connect
  attempt of the process succeeds. The exit status of a Python process is 0 when
  \<open>main\<close> returns, the argument of \<open>sys.exit\<close>, and 1 after an uncaught exception.

  stress\_test.py, \<open>main\<close>: \<open>for _ in range(30): try: connect; break / except: sleep\<close>
  with \<open>else: sys.exit(1)\<close>. \<open>preflight k probe i\<close> runs \<open>k\<close> more attempts starting
  at attempt \<open>i\<close> and tells whether the loop left through \<open>break\<close>.
\<close>

fun preflight :: "nat \<Rightarrow> (nat \<Rightarrow> bool) \<Rightarrow> nat \<Rightarrow> bool" where
  "preflight 0 probe i = False"
| "preflight (Suc k) probe i = (if probe i then True else preflight k probe (Suc i))"

definition exit_status :: "report \<Rightarrow> nat" where
  "exit_status r = (case snd r of None \<Rightarrow> 0 | Some e \<Rightarrow> 1)"

text \<open>
  \<open>main\<close> of stress\_test.py: the run between probe and report is given by its final
  counters and the elapsed time.
\<close>

definition stress_test_main :: "(nat \<Rightarrow> bool) \<Rightarrow> nat \<Rightarrow> nat \<Rightarrow> nat \<Rightarrow> rat \<Rightarrow> nat" where
  "stress_test_main probe completed failed bytes_recv elapsed =
     (if preflight 30 probe 0
      then exit_status (stress_test_final_report completed failed bytes_recv elapsed)
      else 1)"

text \<open>
  \<open>main\<close> of sustained\_load.py calls \<open>run_sustained_test\<close>, whose single probe is
  \<open>try: connect / except: print("[ERROR] ..."); return\<close>: \<open>main\<close> then returns too.
\<close>

definition sustained_load_main :: "(nat \<Rightarrow> bool) \<Rightarrow> nat \<Rightarrow> nat \<Rightarrow> nat \<Rightarrow> rat \<Rightarrow> nat" where
  "sustained_load_main probe total_completed total_failed total_bytes elapsed =
     (if probe 0
      then exit_status (sustained_final_report total_completed total_failed total_bytes elapsed)
      else 0)"

section \<open>Percentiles\<close>

text \<open>Python's \<open>xs[i]\<close> for a non-negative index.\<close>

definition py_index :: "'a list \<Rightarrow> nat \<Rightarrow> py_error + 'a" where
  "py_index xs i = (if i < length xs then Inr (xs ! i) else Inl IndexError)"

text \<open>
  The expression every report uses, \<open>sorted_lat[int(len(sorted_lat) * q)]\<close>, for the
  fraction \<open>q = num / den\<close> (0.9, 0.95, 0.99 in the scripts). The float product is taken
  exactly: \<open>int(n * q)\<close> is \<open>n * num div den\<close>.
\<close>

definition nearest_rank :: "rat list \<Rightarrow> nat \<Rightarrow> nat \<Rightarrow> py_error + rat" where
  "nearest_rank sorted_lat num den = py_index sorted_lat (length sorted_lat * num div den)"

text \<open>
  final\_benchmark.py, \<open>benchmark_endpoint\<close>, under \<open>if latencies:\<close>:
  \<open>p50 = sorted_lat[len(sorted_lat)//2]\<close> and
  \<open>p99 = sorted_lat[int(len(sorted_lat)*0.99)] if len(sorted_lat) >= 100 else max(sorted_lat)\<close>;
  with no latencies both are 0.
\<close>

definition final_benchmark_p50 :: "rat list \<Rightarrow> py_error + rat" where
  "final_benchmark_p50 latencies =
     (if latencies \<noteq> [] then py_index (sort latencies) (length (sort latencies) div 2) else Inr 0)"

definition final_benchmark_p99 :: "rat list \<Rightarrow> py_error + rat" where
  "final_benchmark_p99 latencies =
     (if latencies \<noteq> []
      then (if length (sort latencies) \<ge> 100 then nearest_rank (sort latencies) 99 100
            else Inr (Max (set (sort latencies))))
      else Inr 0)"

text \<open>
  \<open>statistics.median\<close>: the middle element of the sorted data, or the mean of the two
  middle elements when their number is even (StatisticsError on no data, here ValueError,
  its base class).
\<close>

definition statistics_median :: "rat list \<Rightarrow> py_error + rat" where
  "statistics_median data =
     (let d = sort data; n = length d in
      if n = 0 then Inl ValueError
      else if n mod 2 = 1 then Inr (d ! (n div 2))
      else Inr ((d ! (n div 2 - 1) + d ! (n div 2)) / 2))"

text \<open>
  sustained\_load.py, \<open>run_sustained_test\<close>, under \<open>if latencies:\<close>:
  \<open>p50 = statistics.median(sorted_lats)\<close> and
  \<open>p99 = sorted_lats[int(len(sorted_lats) * 0.99)] if len(sorted_lats) > 100 else sorted_lats[-1]\<close>.
  With no latencies the report prints N/A, here \<open>None\<close>.
\<close>

definition sustained_p50 :: "rat list \<Rightarrow> (py_error + rat) option" where
  "sustained_p50 latencies =
     (if latencies \<noteq> [] then Some (statistics_median (sort latencies)) else None)"

definition sustained_p99 :: "rat list \<Rightarrow> (py_error + rat) option" where
  "sustained_p99 latencies =
     (if latencies \<noteq> []
      then Some (if length (sort latencies) > 100 then nearest_rank (sort latencies) 99 100
                 else Inr (last (sort latencies)))
      else None)"

section \<open>The worker loop of stress\_test.py, extreme\_stress.py and ultra\_stress.py\<close>

text \<open>
  The three \<open>worker\<close> functions are the same loop up to constants, which are the
  fields of \<open>worker_config\<close>: \<open>REQUESTS_PER_CONNECTION\<close> (200, 500, 2000), the sleep
  after a failed connect (0.1, 0.05, 0.01 seconds), the sleep after a failed exchange
  (0.01 in stress\_test.py, none in the other two), and the cap on the latency list (none
  in stress\_test.py, 100000 in the other two). \<open>request_length\<close> stands for
  \<open>len(create_request(...))\<close>, which only \<open>bytes_sent\<close> reads.

  A task is an endpoint with an optional request body (stress\_test.py queues bare
  endpoints: the body is \<open>None\<close>).
\<close>

type_synonym task = "string \<times> string option"

record worker_config =
  REQUESTS_PER_CONNECTION :: nat
  connect_backoff :: rat
  error_backoff :: "rat option"
  latency_cap :: "nat option"
  request_length :: "task \<Rightarrow> nat"

text \<open>
  What the world answers during one iteration of the loop: the value of the global
  \<open>running\<close>; the outcome of \<open>request_queue.get(timeout=...)\<close> (\<open>queue.Empty\<close>, the
  poison pill \<open>None\<close>, or a task); whether creating and configuring a socket works;
  whether \<open>sock.connect\<close> works; and how the exchange goes: \<open>sendall\<close> raises,
  \<open>parse_response\<close> raises, \<open>parse_response\<close> returns status \<open>None\<close>, or it returns
  \<open>(status, body_len)\<close> after \<open>elapsed\<close> milliseconds. The queue and the statistics are
  shared with the other workers, so the queue is seen only through \<open>get\<close> and the tasks
  this worker puts back.
\<close>

datatype queue_get = Empty | Pill | Task task

datatype exchange = SendRaises | ResponseRaises | NoResponse | Response int int rat

record env =
  running :: bool
  get :: queue_get
  socket_ok :: bool
  connect_ok :: bool
  outcome :: exchange

text \<open>
  Connections are numbered in the order the sockets are created. The trace lists what the
  worker did to them; it is only observed, never read by the worker.
\<close>

datatype action = Close nat | Connect nat | Send nat task | Served nat | Sleep rat

record worker_state =
  sock :: "nat option"
  requests_on_connection :: nat
  requests_sent :: nat
  requests_completed :: nat
  requests_failed :: nat
  bytes_sent :: nat
  bytes_received :: int
  connection_errors :: nat
  latencies :: "rat list"
  per_endpoint :: "string \<rightharpoonup> nat \<times> int"
  puts :: "task list"
  next_conn :: nat
  trace :: "action list"

definition worker_init :: worker_state where
  "worker_init = \<lparr>sock = None, requests_on_connection = 0, requests_sent = 0,
     requests_completed = 0, requests_failed = 0, bytes_sent = 0, bytes_received = 0,
     connection_errors = 0, latencies = [], per_endpoint = Map.empty, puts = [],
     next_conn = 0, trace = []\<rparr>"

datatype control = Continue | Exit

text \<open>\<open>if sock: try: sock.close() / except: pass\<close>\<close>

definition close_sock :: "worker_state \<Rightarrow> worker_state" where
  "close_sock s = (case sock s of None \<Rightarrow> s | Some c \<Rightarrow> s\<lparr>trace := trace s @ [Close c]\<rparr>)"

definition sleep :: "rat option \<Rightarrow> worker_state \<Rightarrow> worker_state" where
  "sleep d s = (case d of None \<Rightarrow> s | Some t \<Rightarrow> s\<lparr>trace := trace s @ [Sleep t]\<rparr>)"

text \<open>
  The inner \<open>except\<close> block: count the failure, close and forget the socket, reset the
  counter, sleep where the script does.
\<close>

definition exchange_failed :: "worker_config \<Rightarrow> worker_state \<Rightarrow> worker_state" where
  "exchange_failed cfg s =
     sleep (error_backoff cfg)
       ((close_sock (s\<lparr>requests_failed := requests_failed s + 1\<rparr>))
          \<lparr>sock := None, requests_on_connection := 0\<rparr>)"

text \<open>The success block, under \<open>stats_lock\<close>, and the increment after it.\<close>

definition exchange_succeeded ::
  "worker_config \<Rightarrow> nat \<Rightarrow> task \<Rightarrow> int \<Rightarrow> rat \<Rightarrow> worker_state \<Rightarrow> worker_state" where
  "exchange_succeeded cfg c t body_len elapsed s =
     (let (n, b) = (case per_endpoint s (fst t) of None \<Rightarrow> (0, 0) | Some e \<Rightarrow> e) in
      s\<lparr>requests_completed := requests_completed s + 1,
        bytes_received := bytes_received s + body_len,
        latencies := (case latency_cap cfg of
                        None \<Rightarrow> latencies s @ [elapsed]
                      | Some cap \<Rightarrow> if length (latencies s) < cap
                                    then latencies s @ [elapsed] else latencies s),
        per_endpoint := (per_endpoint s)(fst t \<mapsto> (n + 1, b + body_len)),
        requests_on_connection := requests_on_connection s + 1,
        trace := trace s @ [Served c]\<rparr>)"

text \<open>
  The inner \<open>try\<close>: send the request on connection \<open>c\<close>, count it as sent, parse the
  response; a status of \<open>None\<close> raises like any other failure.
\<close>

definition do_exchange :: "worker_config \<Rightarrow> env \<Rightarrow> nat \<Rightarrow> task \<Rightarrow> worker_state \<Rightarrow> worker_state" where
  "do_exchange cfg e c t s =
     (let s1 = s\<lparr>trace := trace s @ [Send c t]\<rparr>;
          s2 = s1\<lparr>requests_sent := requests_sent s1 + 1,
                  bytes_sent := bytes_sent s1 + request_length cfg t\<rparr> in
      case outcome e of
        SendRaises \<Rightarrow> exchange_failed cfg s1
      | ResponseRaises \<Rightarrow> exchange_failed cfg s2
      | NoResponse \<Rightarrow> exchange_failed cfg s2
      | Response status body_len elapsed \<Rightarrow> exchange_succeeded cfg c t body_len elapsed s2)"

text \<open>
  One iteration of \<open>while running:\<close>. When the socket cannot be created the outer
  \<open>except\<close> counts a failed request and the variable \<open>sock\<close> keeps its old value.
\<close>

definition worker_step :: "worker_config \<Rightarrow> env \<Rightarrow> worker_state \<Rightarrow> worker_state \<times> control" where
  "worker_step cfg e s =
     (if \<not> running e then (close_sock s, Exit)
      else case get e of
        Empty \<Rightarrow> (s, Continue)
      | Pill \<Rightarrow> (close_sock s, Exit)
      | Task t \<Rightarrow>
          (case (if requests_on_connection s \<ge> REQUESTS_PER_CONNECTION cfg then None else sock s) of
             Some c \<Rightarrow> (do_exchange cfg e c t s, Continue)
           | None \<Rightarrow>
               (let s1 = close_sock s in
                if \<not> socket_ok e
                then (s1\<lparr>requests_failed := requests_failed s1 + 1\<rparr>, Continue)
                else
                  (let c = next_conn s1;
                       s2 = s1\<lparr>sock := Some c, next_conn := c + 1\<rparr> in
                   if connect_ok e
                   then (do_exchange cfg e c t
                           (s2\<lparr>requests_on_connection := 0, trace := trace s2 @ [Connect c]\<rparr>),
                         Continue)
                   else (sleep (Some (connect_backoff cfg))
                           (s2\<lparr>connection_errors := connection_errors s2 + 1,
                               puts := puts s2 @ [t],
                               sock := None\<rparr>),
                         Continue)))))"

text \<open>The loop over the answers of the world, until the worker leaves it.\<close>

fun worker_run :: "worker_config \<Rightarrow> env list \<Rightarrow> worker_state \<Rightarrow> worker_state" where
  "worker_run cfg [] s = s"
| "worker_run cfg (e # es) s =
     (case worker_step cfg e s of
        (s', Continue) \<Rightarrow> worker_run cfg es s'
      | (s', Exit) \<Rightarrow> s')"

definition stress_test_config :: "(task \<Rightarrow> nat) \<Rightarrow> worker_config" where
  "stress_test_config len = \<lparr>REQUESTS_PER_CONNECTION = 200, connect_backoff = 1 / 10,
     error_backoff = Some (1 / 100), latency_cap = None, request_length = len\<rparr>"

definition extreme_stress_config :: "(task \<Rightarrow> nat) \<Rightarrow> worker_config" where
  "extreme_stress_config len = \<lparr>REQUESTS_PER_CONNECTION = 500, connect_backoff = 5 / 100,
     error_backoff = None, latency_cap = Some 100000, request_length = len\<rparr>"

definition ultra_stress_config :: "(task \<Rightarrow> nat) \<Rightarrow> worker_config" where
  "ultra_stress_config len = \<lparr>REQUESTS_PER_CONNECTION = 2000, connect_backoff = 1 / 100,
     error_backoff = None, latency_cap = Some 100000, request_length = len\<rparr>"

text \<open>How many requests the trace shows as served on connection \<open>c\<close>.\<close>

definition served :: "action list \<Rightarrow> nat \<Rightarrow> nat" where
  "served tr c = length (filter (\<lambda>a. a = Served c) tr)"

text \<open>
  A trace respects the limit \<open>m\<close> when every \<open>Send\<close> goes to a connection that has so
  far served fewer than \<open>m\<close> requests; \<open>cnt\<close> holds the requests served before the
  trace starts.
\<close>

fun sends_below :: "nat \<Rightarrow> (nat \<Rightarrow> nat) \<Rightarrow> action list \<Rightarrow> bool" where
  "sends_below m cnt [] = True"
| "sends_below m cnt (Send c t # tr) = (cnt c < m \<and> sends_below m cnt tr)"
| "sends_below m cnt (Served c # tr) = sends_below m (cnt(c := cnt c + 1)) tr"
| "sends_below m cnt (a # tr) = sends_below m cnt tr"

text \<open>What a worker keeps true of its connection, its counter and its trace.\<close>

definition worker_inv :: "worker_config \<Rightarrow> worker_state \<Rightarrow> bool" where
  "worker_inv cfg s \<longleftrightarrow>
     sends_below (REQUESTS_PER_CONNECTION cfg) (\<lambda>c. 0) (trace s)
   \<and> (\<forall>c. sock s = Some c \<longrightarrow>
          c < next_conn s \<and> requests_on_connection s = served (trace s) c)
   \<and> (\<forall>c. next_conn s \<le> c \<longrightarrow> served (trace s) c = 0)
   \<and> (\<forall>c. served (trace s) c \<le> REQUESTS_PER_CONNECTION cfg)"

subsection \<open>The request queue and the pool of workers\<close>

text \<open>
  \<open>main\<close> of the three scripts puts the \<open>TOTAL_REQUESTS\<close> tasks on \<open>request_queue\<close>,
  then one poison pill \<open>None\<close> for each of the \<open>NUM_CONNECTIONS\<close> workers, and only then
  starts the workers. A \<open>queue.Queue\<close> is first in, first out: \<open>get\<close> takes the head,
  \<open>put\<close> appends at the tail.
\<close>

type_synonym request_queue = "task option list"

definition main_queue :: "task list \<Rightarrow> nat \<Rightarrow> request_queue" where
  "main_queue tasks num_connections = map Some tasks @ replicate num_connections None"

text \<open>\<open>request_queue.get(timeout=...)\<close>: after the timeout an empty queue raises \<open>queue.Empty\<close>.\<close>

fun request_queue_get :: "request_queue \<Rightarrow> queue_get \<times> request_queue" where
  "request_queue_get [] = (Empty, [])"
| "request_queue_get (None # q) = (Pill, q)"
| "request_queue_get (Some t # q) = (Task t, q)"

text \<open>
  One iteration of a worker on the shared queue: \<open>get\<close> answers with the head of the
  queue (the \<open>get\<close> field of the environment is not read), and the task the iteration
  puts back after a failed connect goes to the tail. With \<open>running\<close> false the loop is
  left before \<open>get\<close> is called.
\<close>

definition worker_iteration ::
  "worker_config \<Rightarrow> env \<Rightarrow> request_queue \<Rightarrow> worker_state
     \<Rightarrow> (worker_state \<times> control) \<times> request_queue" where
  "worker_iteration cfg e q s =
     (if \<not> running e then (worker_step cfg e s, q)
      else (case request_queue_get q of
              (g, q') \<Rightarrow>
                (case worker_step cfg (e\<lparr>get := g\<rparr>) s of
                   (s', ctl) \<Rightarrow>
                     ((s', ctl), q' @ map Some (drop (length (puts s)) (puts s'))))))"

text \<open>
  The pool: the queue and, for each worker thread, its state and whether it is still in
  its loop. Each worker state holds that worker's share of the global \<open>stats\<close>.
\<close>

record pool =
  queue :: request_queue
  workers :: "(worker_state \<times> control) list"

definition pool_init :: "task list \<Rightarrow> nat \<Rightarrow> pool" where
  "pool_init tasks num_connections =
     \<lparr>queue = main_queue tasks num_connections,
      workers = replicate num_connections (worker_init, Continue)\<rparr>"

text \<open>
  A schedule names, step by step, the worker that runs its next iteration and what the
  world answers it; an iteration is taken as one step. A worker that has left its loop
  does nothing more.
\<close>

definition pool_step :: "worker_config \<Rightarrow> nat \<times> env \<Rightarrow> pool \<Rightarrow> pool" where
  "pool_step cfg ev p =
     (case ev of (i, e) \<Rightarrow>
        if i < length (workers p) \<and> snd (workers p ! i) = Continue
        then (case worker_iteration cfg e (queue p) (fst (workers p ! i)) of
                (w, q) \<Rightarrow> p\<lparr>queue := q, workers := (workers p)[i := w]\<rparr>)
        else p)"

definition pool_run :: "worker_config \<Rightarrow> (nat \<times> env) list \<Rightarrow> pool \<Rightarrow> pool" where
  "pool_run cfg schedule p = foldl (\<lambda>p ev. pool_step cfg ev p) p schedule"

text \<open>
  What \<open>main\<close> waits for: \<open>stats["requests_completed"] + stats["requests_failed"]\<close>,
  to reach \<open>TOTAL_REQUESTS\<close>; the global \<open>stats["connection_errors"]\<close>; and the number
  of workers still in their loop.
\<close>

definition requests_done :: "pool \<Rightarrow> nat" where
  "requests_done p =
     sum_list (map (\<lambda>w. requests_completed (fst w) + requests_failed (fst w)) (workers p))"

definition total_connection_errors :: "pool \<Rightarrow> nat" where
  "total_connection_errors p = sum_list (map (\<lambda>w. connection_errors (fst w)) (workers p))"

definition alive :: "pool \<Rightarrow> nat" where
  "alive p = length (filter (\<lambda>w. snd w = Continue) (workers p))"

section \<open>Response framing: parse\_response\<close>

subsection \<open>Bytes, text and the Python string operations used\<close>

text \<open>
  Bytes are \<open>char\<close>s (8 bits). \<open>decode("utf-8", errors="ignore")\<close> is modelled on
  ASCII input, where it is the identity; a byte above 127 is dropped, which is what the
  decoder does with a byte that is not part of a valid sequence. The text operations below
  are Python's on ASCII text.
\<close>

type_synonym bytes = string

definition CRLF :: string where
  "CRLF = [CHR 0x0D, CHR 0x0A]"

definition CRLFCRLF :: string where
  "CRLFCRLF = [CHR 0x0D, CHR 0x0A, CHR 0x0D, CHR 0x0A]"

definition ascii :: "string \<Rightarrow> bool" where
  "ascii s = list_all (\<lambda>c. (of_char c :: nat) < 128) s"

definition decode :: "bytes \<Rightarrow> string" where
  "decode b = filter (\<lambda>c. (of_char c :: nat) < 128) b"

definition startswith :: "string \<Rightarrow> string \<Rightarrow> bool" where
  "startswith s p = (take (length p) s = p)"

text \<open>\<open>sub in s\<close>\<close>

fun contains :: "string \<Rightarrow> string \<Rightarrow> bool" where
  "contains sub [] = (sub = [])"
| "contains sub (c # cs) = (startswith (c # cs) sub \<or> contains sub cs)"

text \<open>\<open>s.find(sub)\<close>: the lowest index where \<open>sub\<close> starts, or \<open>-1\<close>.\<close>

fun py_find :: "string \<Rightarrow> string \<Rightarrow> int" where
  "py_find sub [] = (if sub = [] then 0 else -1)"
| "py_find sub (c # cs) =
     (if startswith (c # cs) sub then 0
      else (let i = py_find sub cs in if i < 0 then -1 else i + 1))"

text \<open>
  \<open>s.split(sep)\<close> for a non-empty separator (the scripts only split on \<open>"\r\n"\<close> and
  \<open>":"\<close>): \<open>cur\<close> is the piece being collected.
\<close>

function split_from :: "string \<Rightarrow> string \<Rightarrow> string \<Rightarrow> string list" where
  "split_from sep cur s =
     (if s = [] \<or> sep = [] then [cur @ s]
      else if startswith s sep then cur # split_from sep [] (drop (length sep) s)
      else split_from sep (cur @ [hd s]) (tl s))"
  by pat_completeness auto
termination
  by (relation "measure (\<lambda>(sep, cur, s). length s)") auto

declare split_from.simps [simp del]

definition py_split :: "string \<Rightarrow> string \<Rightarrow> string list" where
  "py_split s sep = split_from sep [] s"

text \<open>Whitespace of \<open>str.split()\<close>, \<open>str.strip()\<close> and \<open>int()\<close>, in ASCII.\<close>

definition isspace :: "char \<Rightarrow> bool" where
  "isspace c = ((of_char c :: nat) \<in> {9, 10, 11, 12, 13, 28, 29, 30, 31, 32})"

text \<open>\<open>s.split()\<close>: the maximal runs of non-whitespace.\<close>

fun split_ws_from :: "string \<Rightarrow> string \<Rightarrow> string list" where
  "split_ws_from cur [] = (if cur = [] then [] else [cur])"
| "split_ws_from cur (c # cs) =
     (if isspace c then (if cur = [] then split_ws_from [] cs else cur # split_ws_from [] cs)
      else split_ws_from (cur @ [c]) cs)"

definition split_ws :: "string \<Rightarrow> string list" where
  "split_ws s = split_ws_from [] s"

definition strip :: "string \<Rightarrow> string" where
  "strip s = rev (dropWhile isspace (rev (dropWhile isspace s)))"

definition lower :: "string \<Rightarrow> string" where
  "lower s = map (\<lambda>c. if 65 \<le> (of_char c :: nat) \<and> (of_char c :: nat) \<le> 90
                       then char_of ((of_char c :: nat) + 32) else c) s"

definition isdigit :: "char \<Rightarrow> bool" where
  "isdigit c = (48 \<le> (of_char c :: nat) \<and> (of_char c :: nat) \<le> 57)"

text \<open>
  The digits of an integer literal: digits with single underscores between them.
  \<open>prev\<close> tells whether the previous character was a digit.
\<close>

fun digits_ok :: "bool \<Rightarrow> string \<Rightarrow> bool" where
  "digits_ok prev [] = prev"
| "digits_ok prev (c # cs) =
     (if isdigit c then digits_ok True cs
      else if c = CHR ''_'' then prev \<and> digits_ok False cs
      else False)"

definition digits_value :: "string \<Rightarrow> int" where
  "digits_value ds =
     foldl (\<lambda>a c. 10 * a + (int (of_char c) - 48)) 0 (filter isdigit ds)"

text \<open>
  \<open>int(s)\<close> for a string: surrounding whitespace is ignored, then an optional sign and
  the digits; anything else is a ValueError, and so are more than 4300 digits (CPython's
  default limit).
\<close>

definition py_int :: "string \<Rightarrow> py_error + int" where
  "py_int s =
     (let t = strip s;
          (sign, ds) = (case t of
                          c # r \<Rightarrow> if c = CHR ''-'' then (-1, r)
                                   else if c = CHR ''+'' then (1, r) else (1, t)
                        | [] \<Rightarrow> (1, t)) in
      if digits_ok False ds \<and> length (filter isdigit ds) \<le> 4300
      then Inr (sign * digits_value ds)
      else Inl ValueError)"

text \<open>\<open>xs[1]\<close>\<close>

definition second :: "'a list \<Rightarrow> py_error + 'a" where
  "second xs = (case xs of _ # y # _ \<Rightarrow> Inr y | _ \<Rightarrow> Inl IndexError)"

subsection \<open>The socket\<close>

text \<open>
  The incoming side of a connection is the list of what is still to arrive: chunks of
  bytes in the order the network delivers them, and timeouts. \<open>recv n\<close> returns at most
  \<open>n\<close> bytes of the next chunk and leaves the rest of it for the next call; with nothing
  left to arrive the peer has closed and \<open>recv\<close> returns \<open>b""\<close>; on a timeout it raises.
\<close>

datatype event = Chunk bytes | Timeout

type_synonym socket = "event list"

fun recv :: "nat \<Rightarrow> socket \<Rightarrow> (py_error + bytes) \<times> socket" where
  "recv n [] = (Inr [], [])"
| "recv n (Timeout # rest) = (Inl SocketTimeout, rest)"
| "recv n (Chunk c # rest) =
     (Inr (take n c), if length c \<le> n then rest else Chunk (drop n c) # rest)"

fun event_size :: "event \<Rightarrow> nat" where
  "event_size (Chunk c) = length c + 1"
| "event_size Timeout = 1"

definition pending :: "socket \<Rightarrow> nat" where
  "pending sk = sum_list (map event_size sk)"
subsection \<open>Reading up to the blank line\<close>

text \<open>
  The loop all three \<open>parse_response\<close> start with, for the read size \<open>n\<close> (4096 in
  stress\_test.py, 65536 in extreme\_stress.py, 1048576 in ultra\_stress.py):
  \<open>chunk = sock.recv(n); if not chunk: return None ...; response += chunk\<close> until
  \<open>b"\r\n\r\n" in response\<close>. The result is \<open>None\<close> when the peer closed first, else
  the response read so far; with it comes what is left of the socket.
\<close>

function read_headers :: "nat \<Rightarrow> socket \<Rightarrow> bytes \<Rightarrow> py_error + (bytes option \<times> socket)" where
  "read_headers n sk response =
     (case recv n sk of
        (Inl e, sk') \<Rightarrow> Inl e
      | (Inr chunk, sk') \<Rightarrow>
          if chunk = [] then Inr (None, sk')
          else if contains CRLFCRLF (response @ chunk) then Inr (Some (response @ chunk), sk')
          else read_headers n sk' (response @ chunk))"
  by pat_completeness auto
termination
proof (relation "measure (\<lambda>(n, sk, response). pending sk)", goal_cases)
  case 1
  show ?case by simp
next
  case (2 n sk response x y b)
  then show ?case
    by (cases "(n, sk)" rule: recv.cases) (auto simp: pending_def split: if_splits)
qed

declare read_headers.simps [simp del]

text \<open>
  The body loop: \<open>while body_received < content_length: chunk = sock.recv(min(remaining,
  65536)); if not chunk: break; body_received += len(chunk)\<close>, for the cap \<open>m\<close> on
  the read size (65536, or 1048576 in ultra\_stress.py). It returns the final
  \<open>body_received\<close> and what is left of the socket.
\<close>

function read_body :: "nat \<Rightarrow> socket \<Rightarrow> int \<Rightarrow> int \<Rightarrow> py_error + (int \<times> socket)" where
  "read_body m sk body_received content_length =
     (if body_received < content_length
      then (case recv (nat (min (content_length - body_received) (int m))) sk of
              (Inl e, sk') \<Rightarrow> Inl e
            | (Inr chunk, sk') \<Rightarrow>
                if chunk = [] then Inr (body_received, sk')
                else read_body m sk' (body_received + int (length chunk)) content_length)
      else Inr (body_received, sk))"
  by pat_completeness auto
termination
  by (relation "measure (\<lambda>(m, sk, body_received, content_length).
                   nat (content_length - body_received))") auto

declare read_body.simps [simp del]

subsection \<open>stress\_test.py: parse\_response\<close>

text \<open>
  The header lines after the first, into the dict \<open>headers\<close>:
  \<open>if ":" in line: key, value = line.split(":", 1); headers[key.strip().lower()] = value.strip()\<close>.
\<close>

definition add_header :: "(string \<rightharpoonup> string) \<Rightarrow> string \<Rightarrow> (string \<rightharpoonup> string)" where
  "add_header headers line =
     (if CHR '':'' \<in> set line
      then headers(lower (strip (takeWhile (\<lambda>c. c \<noteq> CHR '':'') line))
                     \<mapsto> strip (tl (dropWhile (\<lambda>c. c \<noteq> CHR '':'') line)))
      else headers)"

text \<open>
  From \<open># Parse status\<close> to \<open># Get content length\<close>: the status code and the content
  length of the decoded header block. \<open>int(headers.get("content-length", 0))\<close> is 0 when
  the key is missing.
\<close>

definition stress_test_headers :: "string \<Rightarrow> py_error + (int \<times> int)" where
  "stress_test_headers header_data =
     (let lines = py_split header_data CRLF;
          first_line = hd lines in
      case second (split_ws first_line) of
        Inl e \<Rightarrow> Inl e
      | Inr tok \<Rightarrow>
          (case py_int tok of
             Inl e \<Rightarrow> Inl e
           | Inr status_code \<Rightarrow>
               (let headers = foldl add_header Map.empty (tl lines) in
                case (case headers ''content-length'' of None \<Rightarrow> Inr 0 | Some v \<Rightarrow> py_int v) of
                  Inl e \<Rightarrow> Inl e
                | Inr content_length \<Rightarrow> Inr (status_code, content_length))))"

text \<open>
  What \<open>parse_response\<close> returns, with the final value of its local \<open>body_received\<close>
  and what is left of the socket. The third component of the Python result, the
  \<open>headers\<close> dict, is left out: the caller does not read it.
\<close>

record parsed =
  status :: "int option"
  body_length :: int
  body_read :: int
  rest :: socket

definition stress_test_parse_response :: "socket \<Rightarrow> py_error + parsed" where
  "stress_test_parse_response sk =
     (case read_headers 4096 sk [] of
        Inl e \<Rightarrow> Inl e
      | Inr (None, sk1) \<Rightarrow> Inr \<lparr>status = None, body_length = 0, body_read = 0, rest = sk1\<rparr>
      | Inr (Some response, sk1) \<Rightarrow>
          (let header_end = py_find CRLFCRLF response;
               header_data = decode (take (nat header_end) response);
               body_start = header_end + 4 in
           case stress_test_headers header_data of
             Inl e \<Rightarrow> Inl e
           | Inr (status_code, content_length) \<Rightarrow>
               (case read_body 65536 sk1 (int (length response) - body_start) content_length of
                  Inl e \<Rightarrow> Inl e
                | Inr (body_received, sk2) \<Rightarrow>
                    Inr \<lparr>status = Some status_code, body_length = content_length,
                         body_read = body_received, rest = sk2\<rparr>)))"

subsection \<open>extreme\_stress.py and ultra\_stress.py: parse\_response\<close>

text \<open>
  \<open>content_length = 0; for line in header_data.split("\r\n"): if
  line.lower().startswith("content-length:"): content_length =
  int(line.split(":")[1].strip()); break\<close>
\<close>

fun extreme_content_length :: "string list \<Rightarrow> py_error + int" where
  "extreme_content_length [] = Inr 0"
| "extreme_content_length (line # lines) =
     (if startswith (lower line) ''content-length:''
      then (case second (py_split line '':'') of
              Inl e \<Rightarrow> Inl e
            | Inr v \<Rightarrow> py_int (strip v))
      else extreme_content_length lines)"

text \<open>\<open>status = int(header_data.split("\r\n")[0].split()[1])\<close>\<close>

definition extreme_status :: "string \<Rightarrow> py_error + int" where
  "extreme_status header_data =
     (case second (split_ws (hd (py_split header_data CRLF))) of
        Inl e \<Rightarrow> Inl e
      | Inr tok \<Rightarrow> py_int tok)"

text \<open>
  The body of the \<open>try\<close>, for the read size \<open>n\<close> (65536, or 1048576 in
  ultra\_stress.py), with the exceptions still visible.
\<close>

definition extreme_try :: "nat \<Rightarrow> socket \<Rightarrow> py_error + parsed" where
  "extreme_try n sk =
     (case read_headers n sk [] of
        Inl e \<Rightarrow> Inl e
      | Inr (None, sk1) \<Rightarrow> Inr \<lparr>status = None, body_length = 0, body_read = 0, rest = sk1\<rparr>
      | Inr (Some response, sk1) \<Rightarrow>
          (let header_end = py_find CRLFCRLF response;
               header_data = decode (take (nat header_end) response) in
           case extreme_content_length (py_split header_data CRLF) of
             Inl e \<Rightarrow> Inl e
           | Inr content_length \<Rightarrow>
               (let body_start = header_end + 4 in
                case read_body n sk1 (int (length response) - body_start) content_length of
                  Inl e \<Rightarrow> Inl e
                | Inr (body_received, sk2) \<Rightarrow>
                    (case extreme_status header_data of
                       Inl e \<Rightarrow> Inl e
                     | Inr st \<Rightarrow>
                         Inr \<lparr>status = Some st, body_length = content_length,
                              body_read = body_received, rest = sk2\<rparr>))))"

text \<open>
  \<open>parse_response\<close> itself: \<open>except socket.timeout: return None, 0\<close> and
  \<open>except Exception: return None, 0\<close>. The status and the length are all the caller
  gets.
\<close>

definition extreme_parse_response :: "nat \<Rightarrow> socket \<Rightarrow> int option \<times> int" where
  "extreme_parse_response n sk =
     (case extreme_try n sk of
        Inl e \<Rightarrow> (None, 0)
      | Inr p \<Rightarrow> (status p, body_length p))"

subsection \<open>Byte streams\<close>

text \<open>
  A socket on which only data is still to arrive, in non-empty chunks (no timeout), and
  the bytes it will deliver.
\<close>

fun chunks_only :: "socket \<Rightarrow> bool" where
  "chunks_only [] = True"
| "chunks_only (Chunk c # sk) = (c \<noteq> [] \<and> chunks_only sk)"
| "chunks_only (Timeout # sk) = False"

fun content :: "socket \<Rightarrow> bytes" where
  "content [] = []"
| "content (Chunk c # sk) = c @ content sk"
| "content (Timeout # sk) = content sk"

text \<open>
  sustained\_load.py, \<open>worker\<close>: \<open>response = sock.recv(4096)\<close>, then
  \<open>stats.record(True, elapsed, len(response))\<close> or \<open>stats.record(False, 0, 0)\<close>.
\<close>

definition sustained_exchange :: "socket \<Rightarrow> rat \<Rightarrow> attempt" where
  "sustained_exchange sk elapsed =
     (case fst (recv 4096 sk) of
        Inl e \<Rightarrow> Raised
      | Inr response \<Rightarrow> Received (length response) elapsed)"

subsection \<open>What the worker makes of the parsed response\<close>

text \<open>
  stress\_test.py, \<open>worker\<close>: \<open>status, body_len, headers = parse_response(sock)\<close>,
  \<open>if status is None: raise ...\<close>, \<open>elapsed = ...\<close>: the outcome of the exchange once
  the request was sent, for the time \<open>elapsed\<close> it took.
\<close>

definition stress_test_receive :: "socket \<Rightarrow> rat \<Rightarrow> exchange" where
  "stress_test_receive sk elapsed =
     (case stress_test_parse_response sk of
        Inl e \<Rightarrow> ResponseRaises
      | Inr p \<Rightarrow> (case status p of
                    None \<Rightarrow> NoResponse
                  | Some st \<Rightarrow> Response st (body_length p) elapsed))"

text \<open>The same lines of extreme\_stress.py and ultra\_stress.py.\<close>

definition extreme_receive :: "nat \<Rightarrow> socket \<Rightarrow> rat \<Rightarrow> exchange" where
  "extreme_receive n sk elapsed =
     (case extreme_parse_response n sk of
        (None, body_len) \<Rightarrow> NoResponse
      | (Some st, body_len) \<Rightarrow> Response st body_len elapsed)"

section \<open>Properties of recording\<close>

lemma sustained_run_latencies:
  "iv_latencies (foldl (\<lambda>s a. sustained_worker_attempt a s) s0 as) =
     iv_latencies s0 @ concat (map (\<lambda>a. case a of Received n e \<Rightarrow> if n \<noteq> 0 then [e] else [] | Raised \<Rightarrow> []) as)"
proof (induction as arbitrary: s0)
  case Nil
  show ?case by simp
next
  case (Cons a as)
  show ?case
    by (cases a) (simp_all add: Cons.IH IntervalStats_record_def)
qed

lemma endpoint_step_latencies:
  "ep_latencies (ep_get (endpoint_worker_attempt ep a s) k) =
     ep_latencies (ep_get s k) @
     (if ep = k then (case a of Received n e \<Rightarrow> if n \<noteq> 0 then [e] else [] | Raised \<Rightarrow> [])
      else [])"
  by (cases a) (simp_all add: EndpointStats_record_def ep_get_def Let_def)

lemma endpoint_run_latencies:
  "ep_latencies (ep_get (foldl (\<lambda>s (ep, a). endpoint_worker_attempt ep a s) s0 xs) k) =
     ep_latencies (ep_get s0 k) @
     concat (map (\<lambda>(ep, a). if ep = k
                   then (case a of Received n e \<Rightarrow> if n \<noteq> 0 then [e] else [] | Raised \<Rightarrow> [])
                   else []) xs)"
proof (induction xs arbitrary: s0)
  case Nil
  show ?case by simp
next
  case (Cons x xs)
  obtain ep a where x: "x = (ep, a)" by (cases x)
  show ?case
    by (simp add: x Cons.IH endpoint_step_latencies)
qed

lemma gradual_step_latencies:
  "sr_latencies (gradual_worker_attempt a s) =
     sr_latencies s @ (case a of Received n e \<Rightarrow> [e] | Raised \<Rightarrow> [])"
  by (cases a) (simp_all add: gradual_worker_attempt_def stress_test_record_def)

lemma gradual_run_latencies:
  "sr_latencies (foldl (\<lambda>s a. gradual_worker_attempt a s) s0 as) =
     sr_latencies s0 @ concat (map (\<lambda>a. case a of Received n e \<Rightarrow> [e] | Raised \<Rightarrow> []) as)"
proof (induction as arbitrary: s0)
  case Nil
  show ?case by simp
next
  case (Cons a as)
  show ?case
    by (simp add: Cons.IH gradual_step_latencies)
qed

lemma spike_step_latencies:
  "phase_latencies (spike_worker_attempt now a d) =
     phase_latencies d @ (case a of Received n e \<Rightarrow> if n > 0 then [e] else [] | Raised \<Rightarrow> [])"
  by (cases a) (simp_all add: Stats_record_def phase_latencies_def)

lemma spike_run_latencies:
  "phase_latencies (foldl (\<lambda>d (now, a). spike_worker_attempt now a d) d0 xs) =
     phase_latencies d0 @
     concat (map (\<lambda>(now, a). case a of Received n e \<Rightarrow> if n > 0 then [e] else [] | Raised \<Rightarrow> []) xs)"
proof (induction xs arbitrary: d0)
  case Nil
  show ?case by simp
next
  case (Cons x xs)
  obtain now a where x: "x = (now, a)" by (cases x)
  show ?case
    by (simp add: x Cons.IH spike_step_latencies)
qed

lemma worker_step_latencies:
  "latencies (fst (worker_step cfg e s)) \<noteq> latencies s \<longrightarrow>
     (\<exists>st bl el. outcome e = Response st bl el
        \<and> requests_completed (fst (worker_step cfg e s)) = requests_completed s + 1
        \<and> requests_failed (fst (worker_step cfg e s)) = requests_failed s)"
  by (auto simp: worker_step_def do_exchange_def exchange_failed_def exchange_succeeded_def
        sleep_def close_sock_def Let_def
      split: queue_get.splits option.splits exchange.splits if_splits prod.splits)

text \<open>
  C9, as the code has it. The latency lists that the statistics are taken from hold the
  latencies of the successful requests only, in every script that keeps one.

  In sustained\_load.py and endpoint\_mix.py an attempt that raises or reads an empty
  response calls the recorder with latency 0, and the recorder leaves the latency list of
  a failure as it was; the list after any run of attempts is the initial list followed by
  the latencies of the attempts that read at least one byte, in order. In
  gradual\_stress.py \<open>make_request\<close> returns latency 0 for an attempt that raises and
  \<open>stress_test\<close> appends nothing for it (an empty response counts as a success there).
  In final\_benchmark.py an attempt that raises only adds one to \<open>failed\<close>, and so does a
  failed exchange in extreme\_stress.py and ultra\_stress.py; in the worker loop of
  stress\_test.py, extreme\_stress.py and ultra\_stress.py an iteration that changes
  \<open>latencies\<close> is one whose exchange returned a response, and it adds one to
  \<open>requests_completed\<close> and nothing to \<open>requests_failed\<close>.

  spike\_test.py is the exception to "recorded with latency 0": \<open>Stats.data\<close> keeps one
  sample \<open>(time, latency, success)\<close> per attempt, failures included. An attempt that
  raises is stored as \<open>(now, 0, False)\<close>, but an empty response is stored as a failure
  with its measured latency, \<open>(now, latency, False)\<close>. Only \<open>print_phase_stats\<close> drops
  the failures: the list it takes the statistics from holds the latencies of the samples
  whose success flag is set.
\<close>

theorem latency_statistics_from_successes_only:
  "iv_latencies (foldl (\<lambda>s a. sustained_worker_attempt a s) s0 as) =
     iv_latencies s0 @ concat (map (\<lambda>a. case a of Received n e \<Rightarrow> if n \<noteq> 0 then [e] else [] | Raised \<Rightarrow> []) as)
   \<and> sustained_worker_attempt Raised s0 = IntervalStats_record False 0 0 s0
   \<and> sustained_worker_attempt (Received 0 e) s0 = IntervalStats_record False 0 0 s0
   \<and> iv_latencies (IntervalStats_record False l b s0) = iv_latencies s0
   \<and> ep_latencies (ep_get (foldl (\<lambda>s (ep, a). endpoint_worker_attempt ep a s) t0 xs) k) =
     ep_latencies (ep_get t0 k) @
     concat (map (\<lambda>(ep, a). if ep = k
                   then (case a of Received n e \<Rightarrow> if n \<noteq> 0 then [e] else [] | Raised \<Rightarrow> [])
                   else []) xs)
   \<and> endpoint_worker_attempt k Raised t0 = EndpointStats_record k 0 0 False t0
   \<and> endpoint_worker_attempt k (Received 0 e) t0 = EndpointStats_record k 0 0 False t0
   \<and> ep_latencies (ep_get (EndpointStats_record k l b False t0) k') = ep_latencies (ep_get t0 k')
   \<and> sr_latencies (foldl (\<lambda>s a. gradual_worker_attempt a s) r0 as) =
     sr_latencies r0 @ concat (map (\<lambda>a. case a of Received n e \<Rightarrow> [e] | Raised \<Rightarrow> []) as)
   \<and> make_request Raised = (False, 0, 0)
   \<and> sr_latencies (stress_test_record (False, l, b) r0) = sr_latencies r0
   \<and> phase_latencies (foldl (\<lambda>d (now, a). spike_worker_attempt now a d) d0 ys) =
     phase_latencies d0 @
     concat (map (\<lambda>(now, a). case a of Received n e \<Rightarrow> if n > 0 then [e] else [] | Raised \<Rightarrow> []) ys)
   \<and> spike_worker_attempt now Raised d0 = d0 @ [(now, 0, False)]
   \<and> spike_worker_attempt now (Received 0 e) d0 = d0 @ [(now, e, False)]
   \<and> phase_latencies (d0 @ [(now, l, False)]) = phase_latencies d0
   \<and> b_latencies (final_benchmark_record Raised st) = b_latencies st
   \<and> b_latencies (extreme_record Raised st) = b_latencies st
   \<and> latencies (exchange_failed cfg w) = latencies w
   \<and> (latencies (fst (worker_step cfg env w)) \<noteq> latencies w \<longrightarrow>
        (\<exists>status body_len elapsed. outcome env = Response status body_len elapsed
           \<and> requests_completed (fst (worker_step cfg env w)) = requests_completed w + 1
           \<and> requests_failed (fst (worker_step cfg env w)) = requests_failed w))"
  by (intro conjI;
      (rule sustained_run_latencies endpoint_run_latencies gradual_run_latencies
            spike_run_latencies worker_step_latencies
       | simp add: IntervalStats_record_def EndpointStats_record_def ep_get_def
            stress_test_record_def Stats_record_def Let_def phase_latencies_def
            final_benchmark_record_def extreme_record_def exchange_failed_def
            sleep_def close_sock_def split: option.splits))

theorem latency_statistics_from_successes_only_witness:
  "latencies (fst (worker_step (stress_test_config (\<lambda>t. 0))
       \<lparr>running = True, get = Task (''/'', None), socket_ok = True, connect_ok = True,
        outcome = Response 200 5 3\<rparr> worker_init)) = [3]
   \<and> requests_completed (fst (worker_step (stress_test_config (\<lambda>t. 0))
       \<lparr>running = True, get = Task (''/'', None), socket_ok = True, connect_ok = True,
        outcome = Response 200 5 3\<rparr> worker_init)) = 1
   \<and> requests_failed (fst (worker_step (stress_test_config (\<lambda>t. 0))
       \<lparr>running = True, get = Task (''/'', None), socket_ok = True, connect_ok = True,
        outcome = Response 200 5 3\<rparr> worker_init)) = 0"
proof -
  define e where "e = \<lparr>running = True, get = Task (''/'', None), socket_ok = True,
        connect_ok = True, outcome = Response 200 5 3\<rparr>"
  define s' where "s' = fst (worker_step (stress_test_config (\<lambda>t. 0)) e worker_init)"
  have l: "latencies s' = [3]"
    unfolding s'_def e_def
    by (simp add: worker_step_def do_exchange_def exchange_succeeded_def close_sock_def
          stress_test_config_def worker_init_def Let_def)
  then have "latencies s' \<noteq> latencies worker_init" by (simp add: worker_init_def)
  with latency_statistics_from_successes_only
         [where cfg = "stress_test_config (\<lambda>t. 0)" and env = e and w = worker_init]
  have "requests_completed s' = requests_completed worker_init + 1
        \<and> requests_failed s' = requests_failed worker_init"
    unfolding s'_def by blast
  with l show ?thesis unfolding s'_def e_def by (simp add: worker_init_def)
qed

text \<open>
  An empty response in spike\_test.py is a failed attempt recorded with its measured
  latency (here 5), not with latency 0, and it adds a sample to \<open>Stats.data\<close>.
\<close>

theorem spike_test_empty_response_keeps_latency:
  "spike_worker_attempt 7 (Received 0 5) [] = [(7, 5, False)]"
  by (simp add: Stats_record_def)

section \<open>Properties of the final reports\<close>

text \<open>
  C10. The final reports of sustained\_load.py, spike\_test.py and bomb\_test.py divide by
  the number of recorded attempts with no guard: with a positive elapsed time the report
  ends in a ZeroDivisionError exactly when no attempt was recorded, after the lines before
  the success rate were printed; with at least one attempt it prints the success rate
  \<open>100 * completed / (completed + failed)\<close> and finishes.
\<close>

theorem final_report_needs_an_attempt:
  assumes "0 < elapsed"
  shows "(snd (sustained_final_report c f b elapsed) = Some ZeroDivisionError \<longleftrightarrow> c + f = 0)
   \<and> (c + f = 0 \<longrightarrow> sustained_final_report c f b elapsed =
         ([Duration elapsed, TotalRequests c, Failed f], Some ZeroDivisionError))
   \<and> (0 < c + f \<longrightarrow> sustained_final_report c f b elapsed =
         ([Duration elapsed, TotalRequests c, Failed f,
           SuccessRate (of_nat (100 * c) / of_nat (c + f)),
           Throughput (of_nat c / elapsed), DataReceived b], None))
   \<and> (snd (spike_overall_report d) = Some ZeroDivisionError \<longleftrightarrow> d = [])
   \<and> (d = [] \<longrightarrow> spike_overall_report d =
         ([TotalRequests 0, Completed 0, Failed 0], Some ZeroDivisionError))
   \<and> (d \<noteq> [] \<longrightarrow> spike_overall_report d =
         ([TotalRequests (length d), Completed (length (filter (\<lambda>(t, l, s). s) d)),
           Failed (length d - length (filter (\<lambda>(t, l, s). s) d)),
           SuccessRate (of_nat (100 * length (filter (\<lambda>(t, l, s). s) d)) / of_nat (length d))],
          None))
   \<and> (snd (bomb_results_report c f b elapsed) = Some ZeroDivisionError \<longleftrightarrow> c + f = 0)
   \<and> (c + f = 0 \<longrightarrow> bomb_results_report c f b elapsed =
         ([Duration elapsed, Completed c, Failed f], Some ZeroDivisionError))
   \<and> (0 < c + f \<longrightarrow> bomb_results_report c f b elapsed =
         ([Duration elapsed, Completed c, Failed f,
           SuccessRate (of_nat c / of_nat (c + f) * 100),
           Throughput (of_nat c / elapsed), DataReceived b], None))"
  using assms
  by (auto simp: sustained_final_report_def spike_overall_report_def bomb_results_report_def
        py_truediv_def Let_def)

theorem final_report_needs_an_attempt_witness:
  "sustained_final_report 0 0 0 1 = ([Duration 1, TotalRequests 0, Failed 0], Some ZeroDivisionError)
   \<and> sustained_final_report 3 1 7 2 =
       ([Duration 2, TotalRequests 3, Failed 1, SuccessRate 75, Throughput (3 / 2), DataReceived 7], None)
   \<and> spike_overall_report [] = ([TotalRequests 0, Completed 0, Failed 0], Some ZeroDivisionError)
   \<and> spike_overall_report [(0, 5, True), (1, 0, False)] =
       ([TotalRequests 2, Completed 1, Failed 1, SuccessRate 50], None)
   \<and> bomb_results_report 0 0 0 1 = ([Duration 1, Completed 0, Failed 0], Some ZeroDivisionError)
   \<and> bomb_results_report 3 1 7 2 =
       ([Duration 2, Completed 3, Failed 1, SuccessRate 75, Throughput (3 / 2), DataReceived 7], None)"
  using final_report_needs_an_attempt [of 1 0 0 0 "[]"]
        final_report_needs_an_attempt [of 2 3 1 7 "[(0, 5, True), (1, 0, False)]"]
  by simp

section \<open>Properties of the latency stores\<close>

lemma final_benchmark_record_bounded:
  "length (b_latencies s) \<le> 10000 \<Longrightarrow> length (b_latencies (final_benchmark_record a s)) \<le> 10000"
  by (cases a) (simp_all add: final_benchmark_record_def)

lemma final_benchmark_run_bounded:
  "length (b_latencies s) \<le> 10000 \<Longrightarrow>
   length (b_latencies (foldl (\<lambda>s a. final_benchmark_record a s) s as)) \<le> 10000"
proof (induction as arbitrary: s)
  case Nil
  then show ?case by simp
next
  case (Cons a as)
  from Cons.prems have "length (b_latencies (final_benchmark_record a s)) \<le> 10000"
    by (rule final_benchmark_record_bounded)
  then show ?case by (simp add: Cons.IH)
qed

lemma extreme_record_bounded:
  "length (b_latencies s) \<le> 100000 \<Longrightarrow> length (b_latencies (extreme_record a s)) \<le> 100000"
  by (cases a) (simp_all add: extreme_record_def)

lemma extreme_run_bounded:
  "length (b_latencies s) \<le> 100000 \<Longrightarrow>
   length (b_latencies (foldl (\<lambda>s a. extreme_record a s) s as)) \<le> 100000"
proof (induction as arbitrary: s)
  case Nil
  then show ?case by simp
next
  case (Cons a as)
  from Cons.prems have "length (b_latencies (extreme_record a s)) \<le> 100000"
    by (rule extreme_record_bounded)
  then show ?case by (simp add: Cons.IH)
qed

lemma concat_replicate_single: "concat (replicate n [x]) = replicate n x"
  by (induction n) simp_all

text \<open>
  C6, as the code has it. In final\_benchmark.py (capacity 10000) and in extreme\_stress.py
  and ultra\_stress.py (capacity 100000) a latency is appended only while the list holds
  fewer samples than the capacity; a full list is left as it is (nothing is evicted), and
  from the empty list no run of recordings makes it longer than the capacity.
  \<open>IntervalStats.record\<close> of sustained\_load.py has no capacity: it appends the latency
  of every success.
\<close>

theorem capped_latency_store_bounded:
  "length (b_latencies (foldl (\<lambda>s a. final_benchmark_record a s) bench_stats_init as)) \<le> 10000
   \<and> (length (b_latencies s) \<le> 10000 \<longrightarrow>
        length (b_latencies (foldl (\<lambda>s a. final_benchmark_record a s) s as)) \<le> 10000)
   \<and> (length (b_latencies s) < 10000 \<longrightarrow>
        b_latencies (final_benchmark_record (Received n e) s) = b_latencies s @ [e])
   \<and> (10000 \<le> length (b_latencies s) \<longrightarrow>
        b_latencies (final_benchmark_record a s) = b_latencies s)
   \<and> length (b_latencies (foldl (\<lambda>s a. extreme_record a s) bench_stats_init as)) \<le> 100000
   \<and> (length (b_latencies s) \<le> 100000 \<longrightarrow>
        length (b_latencies (foldl (\<lambda>s a. extreme_record a s) s as)) \<le> 100000)
   \<and> (length (b_latencies s) < 100000 \<longrightarrow>
        b_latencies (extreme_record (Received n e) s) = b_latencies s @ [e])
   \<and> (100000 \<le> length (b_latencies s) \<longrightarrow>
        b_latencies (extreme_record a s) = b_latencies s)
   \<and> iv_latencies (IntervalStats_record True e n t) = iv_latencies t @ [e]"
proof -
  have init: "length (b_latencies bench_stats_init) = 0"
    by (simp add: bench_stats_init_def)
  have f1: "length (b_latencies (foldl (\<lambda>s a. final_benchmark_record a s) bench_stats_init as)) \<le> 10000"
    by (rule final_benchmark_run_bounded) (simp add: init)
  have e1: "length (b_latencies (foldl (\<lambda>s a. extreme_record a s) bench_stats_init as)) \<le> 100000"
    by (rule extreme_run_bounded) (simp add: init)
  have f4: "10000 \<le> length (b_latencies s) \<longrightarrow>
        b_latencies (final_benchmark_record a s) = b_latencies s"
    by (cases a) (simp_all add: final_benchmark_record_def)
  have e4: "100000 \<le> length (b_latencies s) \<longrightarrow>
        b_latencies (extreme_record a s) = b_latencies s"
    by (cases a) (simp_all add: extreme_record_def)
  show ?thesis
    using f1 e1 f4 e4 final_benchmark_run_bounded [of s as] extreme_run_bounded [of s as]
    by (simp add: final_benchmark_record_def extreme_record_def IntervalStats_record_def)
qed

theorem capped_latency_store_bounded_witness:
  "b_latencies (final_benchmark_record (Received 3 5) bench_stats_init) = [5]
   \<and> b_latencies (final_benchmark_record (Received 3 5)
        (bench_stats_init\<lparr>b_latencies := replicate 10000 1\<rparr>)) = replicate 10000 1
   \<and> b_latencies (extreme_record (Received 3 5) bench_stats_init) = [5]
   \<and> b_latencies (extreme_record (Received 3 5)
        (bench_stats_init\<lparr>b_latencies := replicate 100000 1\<rparr>)) = replicate 100000 1"
  using capped_latency_store_bounded [of "[]" bench_stats_init 3 5 "Received 3 5"]
        capped_latency_store_bounded
          [of "[]" "bench_stats_init\<lparr>b_latencies := replicate 10000 1\<rparr>" 3 5 "Received 3 5"]
        capped_latency_store_bounded
          [of "[]" "bench_stats_init\<lparr>b_latencies := replicate 100000 1\<rparr>" 3 5 "Received 3 5"]
  by (simp add: bench_stats_init_def)

text \<open>
  The store of sustained\_load.py is not bounded: after 100001 successful attempts it
  holds 100001 samples, more than the largest capacity any of the scripts configures.
\<close>

theorem IntervalStats_store_unbounded:
  "length (iv_latencies (foldl (\<lambda>s a. sustained_worker_attempt a s) IntervalStats_init
      (replicate 100001 (Received 1 1)))) = 100001"
  by (simp add: sustained_run_latencies IntervalStats_init_def concat_replicate_single)

section \<open>Properties of the exit status\<close>

lemma preflight_iff: "preflight k probe i \<longleftrightarrow> (\<exists>j<k. probe (i + j))"
proof (induction k arbitrary: i)
  case 0
  show ?case by simp
next
  case (Suc k)
  show ?case
  proof (cases "probe i")
    case True
    then have "\<exists>j<Suc k. probe (i + j)" by (intro exI [of _ 0]) simp
    with True show ?thesis by simp
  next
    case False
    have "(\<exists>j<k. probe (Suc i + j)) \<longleftrightarrow> (\<exists>j<Suc k. probe (i + j))"
    proof
      assume "\<exists>j<k. probe (Suc i + j)"
      then obtain j where "j < k" "probe (Suc i + j)" by blast
      then show "\<exists>j<Suc k. probe (i + j)" by (intro exI [of _ "Suc j"]) simp
    next
      assume "\<exists>j<Suc k. probe (i + j)"
      then obtain j where j: "j < Suc k" "probe (i + j)" by blast
      with False have "j \<noteq> 0" by (cases j) auto
      then obtain j' where "j = Suc j'" by (cases j) auto
      with j show "\<exists>j<k. probe (Suc i + j)" by (intro exI [of _ j']) simp
    qed
    with False show ?thesis by (simp add: Suc.IH)
  qed
qed

lemma stress_report_exit: "0 < elapsed \<Longrightarrow> exit_status (stress_test_final_report c f b elapsed) = 0"
  by (simp add: exit_status_def stress_test_final_report_def py_truediv_def Let_def)

text \<open>
  C8, as the code has it. stress\_test.py exits with a non-zero status exactly when all
  30 pre-flight connect attempts fail (the status is then 1); a run that passes the probe
  exits 0 whatever its counters of completed and failed requests are. sustained\_load.py
  prints an error and returns when its probe fails, so that process exits 0.
\<close>

theorem exit_status_by_preflight:
  assumes "0 < elapsed"
  shows "(stress_test_main probe c f b elapsed \<noteq> 0 \<longleftrightarrow> (\<forall>i<30. \<not> probe i))
     \<and> ((\<forall>i<30. \<not> probe i) \<longrightarrow> stress_test_main probe c f b elapsed = 1)
     \<and> ((\<exists>i<30. probe i) \<longrightarrow> stress_test_main probe c f b elapsed = 0)
     \<and> (\<not> probe 0 \<longrightarrow> sustained_load_main probe c f b elapsed = 0)"
  using assms
  by (auto simp: stress_test_main_def sustained_load_main_def preflight_iff stress_report_exit)

theorem exit_status_by_preflight_witness:
  "stress_test_main (\<lambda>i. False) 0 0 0 1 = 1
   \<and> stress_test_main (\<lambda>i. i = 2) 0 5 0 1 = 0
   \<and> sustained_load_main (\<lambda>i. False) 0 0 0 1 = 0"
proof -
  have one: "(0::rat) < 1" by simp
  have ex: "\<exists>i<30. (\<lambda>i::nat. i = 2) i" by (intro exI [of _ 2]) simp
  show ?thesis
    using exit_status_by_preflight [OF one, of "\<lambda>i. False" 0 0 0]
          exit_status_by_preflight [OF one, of "\<lambda>i. i = 2" 0 5 0] ex
    by simp
qed

text \<open>
  sustained\_load.py against a target that refuses every connection exits 0; against a
  target that accepts, a run that recorded no attempt exits 1 (the report's division).
\<close>

theorem sustained_load_exit_status_counterexample:
  "sustained_load_main (\<lambda>i. False) 0 0 0 1 = 0 \<and> sustained_load_main (\<lambda>i. True) 0 0 0 1 = 1"
  by (simp add: sustained_load_main_def sustained_final_report_def exit_status_def py_truediv_def)

section \<open>Properties of the percentiles\<close>

lemma rank_index_less:
  assumes "0 < n" and "num < den"
  shows "n * num div den < (n::nat)"
proof -
  from assms have "n * num < n * den" by simp
  moreover from assms have "0 < den" by simp
  ultimately show ?thesis by (simp add: div_less_iff_less_mult)
qed

lemma rank_index_mono:
  assumes "0 < den" and "0 < den'" and "num * den' \<le> num' * (den::nat)"
  shows "n * num div den \<le> n * num' div den'"
proof -
  let ?a = "n * num div den"
  have "?a * den \<le> n * num" by simp
  then have "?a * den * den' \<le> n * num * den'" by (rule mult_le_mono1)
  also have "\<dots> = n * (num * den')" by simp
  also from assms(3) have "\<dots> \<le> n * (num' * den)" by (rule mult_le_mono2)
  finally have "(?a * den') * den \<le> (n * num') * den" by (simp add: ac_simps)
  with assms(1) have "?a * den' \<le> n * num'" by simp
  with assms(2) show ?thesis by (simp add: less_eq_div_iff_mult_less_eq)
qed

lemma sorted_nth_0_Min:
  assumes "sorted ys" and "ys \<noteq> []"
  shows "ys ! 0 = Min (set (ys::rat list))"
proof -
  from assms obtain y ys' where ys: "ys = y # ys'" by (cases ys) auto
  with assms(1) have "\<forall>z\<in>set ys. y \<le> z" by auto
  then have "Min (set ys) = y" using ys by (intro Min_eqI) auto
  with ys show ?thesis by simp
qed

lemma sorted_nth_le_Max:
  assumes "i < length ys"
  shows "ys ! i \<le> Max (set (ys::rat list))"
  using assms by (intro Max_ge) auto

lemma sorted_last_Max:
  assumes "sorted ys" and "ys \<noteq> []"
  shows "last ys = Max (set (ys::rat list))"
proof -
  have "\<forall>z\<in>set ys. z \<le> last ys"
  proof
    fix z assume "z \<in> set ys"
    then obtain i where i: "i < length ys" "ys ! i = z" by (auto simp: in_set_conv_nth)
    with assms have "ys ! i \<le> ys ! (length ys - 1)"
      by (intro sorted_nth_mono) auto
    with i assms show "z \<le> last ys" by (simp add: last_conv_nth)
  qed
  moreover from assms have "last ys \<in> set ys" by simp
  ultimately show ?thesis by (intro Max_eqI [symmetric]) auto
qed

lemma top_rank_99: "0 < n \<Longrightarrow> n \<le> 100 \<Longrightarrow> n * 99 div 100 = n - (1::nat)"
  by arith

text \<open>
  C5, as the code has it. The reports have no percentile function with a clamp: they
  index the sorted samples at \<open>floor(q * n)\<close> for fixed fractions \<open>q < 1\<close>, and for a
  non-empty sample set that index is always at most \<open>n - 1\<close>. The value at \<open>q = 0\<close> is
  the minimum, the value is non-decreasing in \<open>q\<close> and never above the maximum, the p50
  of final\_benchmark.py is the value at 1/2, and the p99 of final\_benchmark.py and of
  sustained\_load.py is the value at 99/100 for every sample count (their small-sample
  fallbacks to the maximum and to the last element give the same value).
\<close>

theorem nearest_rank_properties:
  assumes "samples \<noteq> []" and "num < den" and "num' < den'" and "num * den' \<le> num' * den"
  shows "nearest_rank (sort samples) num den =
           Inr (sort samples ! (length samples * num div den))
     \<and> length samples * num div den \<le> length samples - 1
     \<and> nearest_rank (sort samples) 0 den = Inr (Min (set samples))
     \<and> sort samples ! (length samples * num div den)
         \<le> sort samples ! (length samples * num' div den')
     \<and> sort samples ! (length samples * num' div den') \<le> Max (set samples)
     \<and> final_benchmark_p50 samples = nearest_rank (sort samples) 1 2
     \<and> final_benchmark_p99 samples = nearest_rank (sort samples) 99 100
     \<and> sustained_p99 samples = Some (nearest_rank (sort samples) 99 100)"
proof -
  let ?s = "sort samples" and ?n = "length samples"
  from assms(1) have n: "0 < ?n" by simp
  have ne: "?s \<noteq> []" using assms(1) by (metis length_sort length_0_conv)
  have i: "?n * num div den < ?n" using n assms(2) by (rule rank_index_less)
  have i': "?n * num' div den' < ?n" using n assms(3) by (rule rank_index_less)
  have c1: "nearest_rank ?s num den = Inr (?s ! (?n * num div den))"
    using i by (simp add: nearest_rank_def py_index_def)
  have c2: "?n * num div den \<le> ?n - 1" using i by simp
  have "0 < den" using assms(2) by simp
  have c3: "nearest_rank ?s 0 den = Inr (Min (set samples))"
    using n sorted_nth_0_Min [of ?s] ne by (simp add: nearest_rank_def py_index_def)
  have "?n * num div den \<le> ?n * num' div den'"
    using assms by (intro rank_index_mono) auto
  then have c4: "?s ! (?n * num div den) \<le> ?s ! (?n * num' div den')"
    using i' by (intro sorted_nth_mono) auto
  have c5: "?s ! (?n * num' div den') \<le> Max (set samples)"
    using sorted_nth_le_Max [of "?n * num' div den'" ?s] i' by simp
  have c6: "final_benchmark_p50 samples = nearest_rank ?s 1 2"
    using assms(1) by (simp add: final_benchmark_p50_def nearest_rank_def)
  have top: "?n \<le> 100 \<Longrightarrow> nearest_rank ?s 99 100 = Inr (Max (set samples))"
  proof -
    assume le: "?n \<le> 100"
    with n have "?n * 99 div 100 = ?n - 1" by (rule top_rank_99)
    moreover have "?s ! (?n - 1) = last ?s" using ne by (simp add: last_conv_nth)
    moreover have "last ?s = Max (set ?s)" using ne by (intro sorted_last_Max) auto
    ultimately show ?thesis using n by (simp add: nearest_rank_def py_index_def)
  qed
  have c7: "final_benchmark_p99 samples = nearest_rank ?s 99 100"
    using assms(1) top by (simp add: final_benchmark_p99_def)
  have "last ?s = Max (set samples)" using sorted_last_Max [of ?s] ne by simp
  then have c8: "sustained_p99 samples = Some (nearest_rank ?s 99 100)"
    using assms(1) top by (simp add: sustained_p99_def)
  from c1 c2 c3 c4 c5 c6 c7 c8 show ?thesis by blast
qed

theorem nearest_rank_properties_witness:
  "nearest_rank (sort [3, 1, 2]) 1 2 = Inr 2
   \<and> nearest_rank (sort [3, 1, 2]) 0 2 = Inr 1
   \<and> final_benchmark_p50 [3, 1, 2] = Inr 2
   \<and> final_benchmark_p99 [3, 1, 2] = Inr 3
   \<and> sustained_p99 [3, 1, 2] = Some (Inr 3)"
proof -
  have a: "[3, 1, 2] \<noteq> ([]::rat list)" by simp
  have b: "(1::nat) < 2" by simp
  have c: "(99::nat) < 100" by simp
  have d: "(1::nat) * 100 \<le> 99 * 2" by simp
  have s: "sort [3, 1, 2::rat] = [1, 2, 3]" by simp
  show ?thesis
    using nearest_rank_properties [OF a b c d]
    by (simp add: s nearest_rank_def py_index_def)
qed

text \<open>
  The p50 of sustained\_load.py is \<open>statistics.median\<close>, which interpolates: for the
  samples 1 and 3 it is 2, while the nearest-rank value at one half is 3. At \<open>q = 1\<close> the
  unclamped index is \<open>n\<close>, out of range.
\<close>

theorem sustained_p50_interpolates:
  "sustained_p50 [1, 3] = Some (Inr 2) \<and> nearest_rank (sort [1, 3]) 1 2 = Inr 3
   \<and> nearest_rank (sort [1, 3]) 1 1 = Inl IndexError"
  by (simp add: sustained_p50_def statistics_median_def nearest_rank_def py_index_def Let_def)

section \<open>Properties of the worker loop\<close>

lemma served_append: "served (tr @ tr') c = served tr c + served tr' c"
  by (simp add: served_def)

lemma served_simps:
  "served [] c = 0"
  "served (Served c' # tr) c = (if c' = c then 1 else 0) + served tr c"
  "served (Send c' t # tr) c = served tr c"
  "served (Close c' # tr) c = served tr c"
  "served (Connect c' # tr) c = served tr c"
  "served (Sleep d # tr) c = served tr c"
  by (auto simp: served_def)

lemma sends_below_append:
  "sends_below m cnt (tr @ tr') \<longleftrightarrow>
     sends_below m cnt tr \<and> sends_below m (\<lambda>c. cnt c + served tr c) tr'"
proof (induction m cnt tr rule: sends_below.induct)
  case (3 m cnt c tr)
  have eq: "(\<lambda>x. (cnt(c := cnt c + 1)) x + served tr x) = (\<lambda>x. cnt x + served (Served c # tr) x)"
    by (auto simp: served_simps)
  have "sends_below m cnt ((Served c # tr) @ tr') = sends_below m (cnt(c := cnt c + 1)) (tr @ tr')"
    by simp
  also have "\<dots> = (sends_below m (cnt(c := cnt c + 1)) tr
                 \<and> sends_below m (\<lambda>x. (cnt(c := cnt c + 1)) x + served tr x) tr')"
    by (rule 3)
  also have "\<dots> = (sends_below m cnt (Served c # tr)
                 \<and> sends_below m (\<lambda>x. cnt x + served (Served c # tr) x) tr')"
    by (simp only: eq sends_below.simps)
  finally show ?case .
qed (simp_all add: served_simps)

lemma inv_init: "worker_inv cfg worker_init"
  by (simp add: worker_inv_def worker_init_def served_simps)

lemma inv_close_sock: "worker_inv cfg s \<Longrightarrow> worker_inv cfg (close_sock s)"
  by (auto simp: worker_inv_def close_sock_def served_append served_simps sends_below_append
           split: option.splits)

lemma inv_sleep: "worker_inv cfg s \<Longrightarrow> worker_inv cfg (sleep d s)"
  by (auto simp: worker_inv_def sleep_def served_append served_simps sends_below_append
           split: option.splits)

lemma inv_forget:
  "worker_inv cfg s \<Longrightarrow> worker_inv cfg (s\<lparr>sock := None, requests_on_connection := k\<rparr>)"
  by (simp add: worker_inv_def)

lemma inv_exchange_failed: "worker_inv cfg s \<Longrightarrow> worker_inv cfg (exchange_failed cfg s)"
proof -
  assume i: "worker_inv cfg s"
  then have "worker_inv cfg (s\<lparr>requests_failed := requests_failed s + 1\<rparr>)"
    by (simp add: worker_inv_def)
  then have "worker_inv cfg (close_sock (s\<lparr>requests_failed := requests_failed s + 1\<rparr>))"
    by (rule inv_close_sock)
  then show ?thesis unfolding exchange_failed_def by (intro inv_sleep inv_forget)
qed

lemma inv_do_exchange:
  assumes "worker_inv cfg s" and "sock s = Some c"
    and "requests_on_connection s < REQUESTS_PER_CONNECTION cfg"
  shows "worker_inv cfg (do_exchange cfg e c t s)"
proof -
  let ?s1 = "s\<lparr>trace := trace s @ [Send c t]\<rparr>"
  let ?s2 = "?s1\<lparr>requests_sent := requests_sent ?s1 + 1,
                  bytes_sent := bytes_sent ?s1 + request_length cfg t\<rparr>"
  from assms have i1: "worker_inv cfg ?s1"
    by (auto simp: worker_inv_def served_append served_simps sends_below_append)
  then have i2: "worker_inv cfg ?s2" by (simp add: worker_inv_def)
  show ?thesis
  proof (cases "outcome e")
    case SendRaises
    with i1 show ?thesis by (simp add: do_exchange_def Let_def inv_exchange_failed)
  next
    case ResponseRaises
    with i2 inv_exchange_failed [of cfg ?s2] show ?thesis by (simp add: do_exchange_def Let_def)
  next
    case NoResponse
    with i2 inv_exchange_failed [of cfg ?s2] show ?thesis by (simp add: do_exchange_def Let_def)
  next
    case (Response status body_len elapsed)
    have "worker_inv cfg (exchange_succeeded cfg c t body_len elapsed ?s2)"
      using i2 assms(2,3)
      by (auto simp: worker_inv_def exchange_succeeded_def Let_def served_append served_simps
            sends_below_append split: prod.splits option.splits)
    with Response show ?thesis by (simp add: do_exchange_def Let_def)
  qed
qed

lemma inv_step:
  assumes "worker_inv cfg s" and "0 < REQUESTS_PER_CONNECTION cfg"
  shows "worker_inv cfg (fst (worker_step cfg e s))"
proof (cases "running e")
  case False
  with assms show ?thesis by (simp add: worker_step_def inv_close_sock)
next
  case True
  show ?thesis
  proof (cases "get e")
    case Empty
    with True assms show ?thesis by (simp add: worker_step_def)
  next
    case Pill
    with True assms show ?thesis by (simp add: worker_step_def inv_close_sock)
  next
    case (Task t)
    show ?thesis
    proof (cases "if requests_on_connection s \<ge> REQUESTS_PER_CONNECTION cfg then None else sock s")
      case (Some c)
      then have "sock s = Some c" "requests_on_connection s < REQUESTS_PER_CONNECTION cfg"
        by (auto split: if_splits)
      with assms(1) have "worker_inv cfg (do_exchange cfg e c t s)" by (intro inv_do_exchange)
      with True Task Some show ?thesis by (simp add: worker_step_def)
    next
      case None
      let ?s1 = "close_sock s"
      have i1: "worker_inv cfg ?s1" using assms(1) by (rule inv_close_sock)
      have nc: "next_conn ?s1 = next_conn s" by (simp add: close_sock_def split: option.splits)
      show ?thesis
      proof (cases "socket_ok e")
        case False
        from i1 have "worker_inv cfg (?s1\<lparr>requests_failed := requests_failed ?s1 + 1\<rparr>)"
          by (simp add: worker_inv_def)
        with True Task None False show ?thesis by (simp add: worker_step_def Let_def)
      next
        case sok: True
        let ?c = "next_conn ?s1"
        let ?s2 = "?s1\<lparr>sock := Some ?c, next_conn := ?c + 1\<rparr>"
        show ?thesis
        proof (cases "connect_ok e")
          case False
          have "worker_inv cfg (?s2\<lparr>connection_errors := connection_errors ?s2 + 1,
                               puts := puts ?s2 @ [t], sock := None\<rparr>)"
            using i1 by (auto simp: worker_inv_def)
          then have "worker_inv cfg (sleep (Some (connect_backoff cfg))
                       (?s2\<lparr>connection_errors := connection_errors ?s2 + 1,
                               puts := puts ?s2 @ [t], sock := None\<rparr>))"
            by (rule inv_sleep)
          with True Task None sok False show ?thesis by (simp add: worker_step_def Let_def)
        next
          case cok: True
          let ?s3 = "?s2\<lparr>requests_on_connection := 0, trace := trace ?s2 @ [Connect ?c]\<rparr>"
          have "worker_inv cfg ?s3"
            using i1 by (auto simp: worker_inv_def served_append served_simps sends_below_append)
          moreover have "sock ?s3 = Some ?c" by simp
          moreover have "requests_on_connection ?s3 < REQUESTS_PER_CONNECTION cfg"
            using assms(2) by simp
          ultimately have "worker_inv cfg (do_exchange cfg e ?c t ?s3)" by (rule inv_do_exchange)
          with True Task None sok cok show ?thesis by (simp add: worker_step_def Let_def)
        qed
      qed
    qed
  qed
qed

lemma inv_run:
  assumes "0 < REQUESTS_PER_CONNECTION cfg"
  shows "worker_inv cfg s \<Longrightarrow> worker_inv cfg (worker_run cfg es s)"
proof (induction es arbitrary: s)
  case Nil
  then show ?case by simp
next
  case (Cons e es)
  from Cons.prems assms have "worker_inv cfg (fst (worker_step cfg e s))" by (rule inv_step)
  then show ?case
    by (cases "worker_step cfg e s") (auto simp: Cons.IH split: control.splits)
qed

subsection \<open>Failures and connection replacement\<close>

lemma numbered_step:
  assumes "\<forall>c. sock s = Some c \<longrightarrow> c < next_conn s"
  shows "\<forall>c. sock (fst (worker_step cfg e s)) = Some c \<longrightarrow> c < next_conn (fst (worker_step cfg e s))"
  using assms
  by (auto simp: worker_step_def do_exchange_def exchange_failed_def exchange_succeeded_def
        close_sock_def sleep_def Let_def
      split: queue_get.splits option.splits exchange.splits if_splits prod.splits)

lemma numbered_run:
  "\<forall>c. sock s = Some c \<longrightarrow> c < next_conn s \<Longrightarrow>
   \<forall>c. sock (worker_run cfg es s) = Some c \<longrightarrow> c < next_conn (worker_run cfg es s)"
proof (induction es arbitrary: s)
  case Nil
  then show ?case by simp
next
  case (Cons e es)
  from Cons.prems
  have n: "\<forall>c. sock (fst (worker_step cfg e s)) = Some c \<longrightarrow> c < next_conn (fst (worker_step cfg e s))"
    by (rule numbered_step)
  show ?case
  proof (cases "worker_step cfg e s")
    case (Pair s' ctl)
    with n have n': "\<forall>c. sock s' = Some c \<longrightarrow> c < next_conn s'" by simp
    show ?thesis
    proof (cases ctl)
      case Continue
      with Pair Cons.IH [OF n'] show ?thesis by simp
    next
      case Exit
      with Pair n' show ?thesis by simp
    qed
  qed
qed

lemma no_send_step:
  assumes "sock s \<noteq> Some c" and "c < next_conn s"
  shows "\<exists>new. trace (fst (worker_step cfg e s)) = trace s @ new \<and> (\<forall>t. Send c t \<notin> set new)
           \<and> sock (fst (worker_step cfg e s)) \<noteq> Some c \<and> c < next_conn (fst (worker_step cfg e s))"
  using assms
  by (auto simp: worker_step_def do_exchange_def exchange_failed_def exchange_succeeded_def
        close_sock_def sleep_def Let_def
      split: queue_get.splits option.splits exchange.splits if_splits prod.splits)

lemma no_send_run:
  "sock s \<noteq> Some c \<Longrightarrow> c < next_conn s \<Longrightarrow>
   \<exists>new. trace (worker_run cfg es s) = trace s @ new \<and> (\<forall>t. Send c t \<notin> set new)"
proof (induction es arbitrary: s)
  case Nil
  then show ?case by simp
next
  case (Cons e es)
  from no_send_step [OF Cons.prems, of cfg e]
  obtain new where new: "trace (fst (worker_step cfg e s)) = trace s @ new"
      "\<forall>t. Send c t \<notin> set new" "sock (fst (worker_step cfg e s)) \<noteq> Some c"
      "c < next_conn (fst (worker_step cfg e s))"
    by blast
  show ?case
  proof (cases "worker_step cfg e s")
    case (Pair s' ctl)
    show ?thesis
    proof (cases ctl)
      case Exit
      with Pair new show ?thesis by auto
    next
      case Continue
      from Pair new have "sock s' \<noteq> Some c" "c < next_conn s'" by auto
      from Cons.IH [OF this]
      obtain new' where "trace (worker_run cfg es s') = trace s' @ new'" "\<forall>t. Send c t \<notin> set new'"
        by blast
      with Pair Continue new have "trace (worker_run cfg (e # es) s) = trace s @ (new @ new')"
          "\<forall>t. Send c t \<notin> set (new @ new')"
        by auto
      then show ?thesis by blast
    qed
  qed
qed

subsection \<open>A task put back after a failed connect\<close>

text \<open>
  An iteration that has a task and needs a new connection whose \<open>connect\<close> fails
  adds exactly one to \<open>connection_errors\<close>, puts the same task back on the queue, counts
  the task neither as completed nor as failed nor as sent, forgets the socket, sleeps for
  the backoff, and goes on with the loop.
\<close>

lemma failed_connect_step:
  assumes "running e" and "get e = Task t"
    and "sock s = None \<or> REQUESTS_PER_CONNECTION cfg \<le> requests_on_connection s"
    and "socket_ok e" and "\<not> connect_ok e"
    and "worker_step cfg e s = (s', ctl)"
  shows "ctl = Continue
     \<and> connection_errors s' = connection_errors s + 1
     \<and> puts s' = puts s @ [t]
     \<and> requests_completed s' = requests_completed s
     \<and> requests_failed s' = requests_failed s
     \<and> requests_sent s' = requests_sent s
     \<and> sock s' = None
     \<and> trace s' = trace (close_sock s) @ [Sleep (connect_backoff cfg)]"
  using assms
  by (auto simp: worker_step_def close_sock_def sleep_def Let_def split: option.splits if_splits)

lemma sum_list_map_update:
  "i < length xs \<Longrightarrow>
     sum_list (map f (xs[i := y])) + f (xs ! i) = sum_list (map f xs) + (f y :: nat)"
proof (induction xs arbitrary: i)
  case Nil
  then show ?case by simp
next
  case (Cons x xs)
  then show ?case by (cases i) auto
qed

lemma count_update:
  "i < length xs \<Longrightarrow>
     length (filter P (xs[i := y])) + (if P (xs ! i) then 1 else 0)
       = length (filter P xs) + (if P y then 1 else 0)"
proof (induction xs arbitrary: i)
  case Nil
  then show ?case by simp
next
  case (Cons x xs)
  then show ?case by (cases i) auto
qed

lemma worker_step_stopped:
  "\<not> running e \<or> get e = Pill \<Longrightarrow> worker_step cfg e s = (close_sock s, Exit)"
  by (auto simp: worker_step_def)

lemma close_sock_counters:
  "requests_completed (close_sock s) = requests_completed s"
  "requests_failed (close_sock s) = requests_failed s"
  "connection_errors (close_sock s) = connection_errors s"
  "puts (close_sock s) = puts s"
  by (simp_all add: close_sock_def split: option.splits)

lemma worker_step_task:
  assumes "running e" and "get e = Task t" and "worker_step cfg e s = (s', ctl)"
  shows "ctl = Continue \<and>
     ((puts s' = puts s \<and> connection_errors s' = connection_errors s
         \<and> requests_completed s' + requests_failed s'
             = requests_completed s + requests_failed s + 1)
      \<or> (puts s' = puts s @ [t] \<and> connection_errors s' = connection_errors s + 1
         \<and> requests_completed s' + requests_failed s'
             = requests_completed s + requests_failed s))"
  using assms
  by (cases "outcome e")
     (auto simp: worker_step_def do_exchange_def exchange_failed_def exchange_succeeded_def
        sleep_def close_sock_def Let_def
      split: option.splits if_splits prod.splits)

lemma pool_step_shape:
  assumes q: "queue p = map Some waiting @ replicate k None @ map Some requeued"
    and a: "alive p \<le> k"
    and c: "length requeued = total_connection_errors p"
    and d: "requests_done p + length waiting + length requeued = ntasks"
  shows "\<exists>waiting' k' requeued'.
           queue (pool_step cfg ev p) = map Some waiting' @ replicate k' None @ map Some requeued'
         \<and> alive (pool_step cfg ev p) \<le> k'
         \<and> length requeued' = total_connection_errors (pool_step cfg ev p)
         \<and> requests_done (pool_step cfg ev p) + length waiting' + length requeued' = ntasks"
proof -
  obtain i e where ev: "ev = (i, e)" by (cases ev)
  show ?thesis
  proof (cases "i < length (workers p) \<and> snd (workers p ! i) = Continue")
    case False
    then have "pool_step cfg ev p = p" by (auto simp: pool_step_def ev)
    with assms show ?thesis by metis
  next
    case True
    define s where "s = fst (workers p ! i)"
    from True have i: "i < length (workers p)" and wi: "workers p ! i = (s, Continue)"
      by (auto simp: s_def prod_eq_iff)
    let ?done = "\<lambda>w. requests_completed (fst w) + requests_failed (fst w)"
    let ?errs = "\<lambda>w. connection_errors (fst w)"
    let ?live = "\<lambda>w. snd w = Continue"
    have upd: "pool_step cfg ev p =
        (case worker_iteration cfg e (queue p) s of
           (w, q') \<Rightarrow> p\<lparr>queue := q', workers := (workers p)[i := w]\<rparr>)"
      using True by (simp add: pool_step_def ev s_def)
    have dn: "requests_done r + ?done (s, Continue) = requests_done p + ?done w"
      if "workers r = (workers p)[i := w]" for r w
      using sum_list_map_update [OF i, of ?done w] wi that by (simp add: requests_done_def)
    have er: "total_connection_errors r + ?errs (s, Continue) = total_connection_errors p + ?errs w"
      if "workers r = (workers p)[i := w]" for r w
      using sum_list_map_update [OF i, of ?errs w] wi that
      by (simp add: total_connection_errors_def)
    have al: "alive r + 1 = alive p + (if snd w = Continue then 1 else 0)"
      if "workers r = (workers p)[i := w]" for r w
      using count_update [OF i, of ?live w] wi that by (simp add: alive_def)
    from i have "workers p ! i \<in> set (workers p)" by (rule nth_mem)
    with wi have "workers p ! i \<in> set (filter ?live (workers p))" by simp
    then have "0 < length (filter ?live (workers p))" by (rule length_pos_if_in_set)
    then have k1: "1 \<le> alive p" unfolding alive_def by (simp only: One_nat_def Suc_le_eq)
    have leave: ?thesis
      if it: "worker_iteration cfg e (queue p) s = ((close_sock s, Exit), q')"
        and q': "q' = map Some waiting @ replicate k' None @ map Some requeued" and k': "k \<le> k' + 1"
      for q' k'
    proof -
      let ?p = "p\<lparr>queue := q', workers := (workers p)[i := (close_sock s, Exit)]\<rparr>"
      have p': "pool_step cfg ev p = ?p" using upd it by simp
      have "queue ?p = map Some waiting @ replicate k' None @ map Some requeued" using q' by simp
      moreover have "alive ?p \<le> k'"
        using al [of ?p "(close_sock s, Exit)"] a k' by simp
      moreover have "length requeued = total_connection_errors ?p"
        using er [of ?p "(close_sock s, Exit)"] c by (simp add: close_sock_counters)
      moreover have "requests_done ?p + length waiting + length requeued = ntasks"
        using dn [of ?p "(close_sock s, Exit)"] d by (simp add: close_sock_counters)
      ultimately show ?thesis unfolding p' by blast
    qed
    show ?thesis
    proof (cases "running e")
      case False
      then have "worker_iteration cfg e (queue p) s = ((close_sock s, Exit), queue p)"
        by (simp add: worker_iteration_def worker_step_stopped)
      from leave [OF this q] show ?thesis by simp
    next
      case run: True
      show ?thesis
      proof (cases waiting)
        case Nil
        from k1 a obtain k' where k: "k = Suc k'" by (cases k) auto
        have g: "request_queue_get (queue p) = (Pill, replicate k' None @ map Some requeued)"
          using q Nil k by simp
        have "worker_step cfg (e\<lparr>get := Pill\<rparr>) s = (close_sock s, Exit)"
          by (rule worker_step_stopped) simp
        with run g
        have "worker_iteration cfg e (queue p) s
                = ((close_sock s, Exit), replicate k' None @ map Some requeued)"
          by (simp add: worker_iteration_def close_sock_counters)
        from leave [OF this, of k'] Nil k show ?thesis by simp
      next
        case (Cons t ws)
        have g: "request_queue_get (queue p)
                   = (Task t, map Some ws @ replicate k None @ map Some requeued)"
          using q Cons by simp
        obtain s' ctl where st: "worker_step cfg (e\<lparr>get := Task t\<rparr>) s = (s', ctl)"
          by (cases "worker_step cfg (e\<lparr>get := Task t\<rparr>) s")
        from worker_step_task [OF _ _ st] run
        have ctl: "ctl = Continue"
          and alt: "(puts s' = puts s \<and> connection_errors s' = connection_errors s
                       \<and> requests_completed s' + requests_failed s'
                           = requests_completed s + requests_failed s + 1)
                  \<or> (puts s' = puts s @ [t] \<and> connection_errors s' = connection_errors s + 1
                       \<and> requests_completed s' + requests_failed s'
                           = requests_completed s + requests_failed s)"
          by simp_all
        let ?q = "(map Some ws @ replicate k None @ map Some requeued)
                    @ map Some (drop (length (puts s)) (puts s'))"
        let ?p = "p\<lparr>queue := ?q, workers := (workers p)[i := (s', Continue)]\<rparr>"
        have "worker_iteration cfg e (queue p) s = ((s', Continue), ?q)"
          using run g st ctl by (simp add: worker_iteration_def)
        then have p': "pool_step cfg ev p = ?p" using upd by simp
        have al': "alive ?p \<le> k" using al [of ?p "(s', Continue)"] a by simp
        from alt show ?thesis
        proof
          assume h: "puts s' = puts s \<and> connection_errors s' = connection_errors s
                       \<and> requests_completed s' + requests_failed s'
                           = requests_completed s + requests_failed s + 1"
          then have "queue ?p = map Some ws @ replicate k None @ map Some requeued" by simp
          moreover have "length requeued = total_connection_errors ?p"
            using er [of ?p "(s', Continue)"] c h by simp
          moreover have "requests_done ?p + length ws + length requeued = ntasks"
            using dn [of ?p "(s', Continue)"] d h Cons by simp
          ultimately show ?thesis unfolding p' using al' by blast
        next
          assume h: "puts s' = puts s @ [t] \<and> connection_errors s' = connection_errors s + 1
                       \<and> requests_completed s' + requests_failed s'
                           = requests_completed s + requests_failed s"
          then have "queue ?p = map Some ws @ replicate k None @ map Some (requeued @ [t])" by simp
          moreover have "length (requeued @ [t]) = total_connection_errors ?p"
            using er [of ?p "(s', Continue)"] c h by simp
          moreover have "requests_done ?p + length ws + length (requeued @ [t]) = ntasks"
            using dn [of ?p "(s', Continue)"] d h Cons by simp
          ultimately show ?thesis unfolding p' using al' by blast
        qed
      qed
    qed
  qed
qed

lemma pool_run_shape:
  assumes "queue p = map Some waiting @ replicate k None @ map Some requeued"
    and "alive p \<le> k"
    and "length requeued = total_connection_errors p"
    and "requests_done p + length waiting + length requeued = ntasks"
  shows "\<exists>waiting' k' requeued'.
           queue (pool_run cfg schedule p) = map Some waiting' @ replicate k' None @ map Some requeued'
         \<and> alive (pool_run cfg schedule p) \<le> k'
         \<and> length requeued' = total_connection_errors (pool_run cfg schedule p)
         \<and> requests_done (pool_run cfg schedule p) + length waiting' + length requeued' = ntasks"
  using assms
proof (induction schedule arbitrary: p waiting k requeued)
  case Nil
  then show ?case unfolding pool_run_def by (metis foldl_Nil)
next
  case (Cons ev schedule)
  from pool_step_shape [OF Cons.prems, of cfg ev]
  obtain waiting' k' requeued' where
      "queue (pool_step cfg ev p) = map Some waiting' @ replicate k' None @ map Some requeued'"
      "alive (pool_step cfg ev p) \<le> k'"
      "length requeued' = total_connection_errors (pool_step cfg ev p)"
      "requests_done (pool_step cfg ev p) + length waiting' + length requeued' = ntasks"
    by blast
  from Cons.IH [OF this] show ?case by (simp add: pool_run_def)
qed

lemma pool_init_shape:
  "queue (pool_init tasks n) = map Some tasks @ replicate n None @ map Some []"
  "alive (pool_init tasks n) \<le> n"
  "length ([] :: task list) = total_connection_errors (pool_init tasks n)"
  "requests_done (pool_init tasks n) + length tasks + length ([] :: task list) = length tasks"
  by (simp_all add: pool_init_def main_queue_def alive_def total_connection_errors_def
        requests_done_def worker_init_def sum_list_replicate)

text \<open>
  C3, as the code has it. The iteration whose \<open>connect\<close> fails does put its task back,
  but \<open>put\<close> appends it to the tail of the queue, behind the poison pills that \<open>main\<close>
  queued before it started the workers. Whatever the schedule and whatever the world
  answers, the queue is always made of the tasks not yet taken, then at least as many
  poison pills as there are workers still in their loop, then the tasks put back, one for
  each connection error. So every worker meets a pill and leaves before it could meet a
  task that was put back: such a task is never taken again and never sent, and it is
  counted neither as completed nor as failed, so that \<open>completed + failed\<close> stays below
  the number of tasks, which is what \<open>main\<close> waits for.

  The second part runs stress\_test.py's loop with two tasks and two workers: the first
  worker's connect is refused, the second worker serves the other task, then both meet
  their pill. The task put back is left on the queue with no worker in its loop; no
  request was ever sent for it.
\<close>

theorem requeued_task_is_never_delivered:
  "(\<exists>waiting k requeued.
       queue (pool_run cfg schedule (pool_init tasks n))
         = map Some waiting @ replicate k None @ map Some requeued
     \<and> alive (pool_run cfg schedule (pool_init tasks n)) \<le> k
     \<and> length requeued = total_connection_errors (pool_run cfg schedule (pool_init tasks n))
     \<and> requests_done (pool_run cfg schedule (pool_init tasks n))
           + length waiting + length requeued = length tasks)
   \<and> (let refuse = \<lparr>running = True, get = Empty, socket_ok = True, connect_ok = False,
                      outcome = NoResponse\<rparr>;
           serve = \<lparr>running = True, get = Empty, socket_ok = True, connect_ok = True,
                     outcome = Response 200 5 3\<rparr>;
           p = pool_run (stress_test_config (\<lambda>t. 0))
                 [(0, refuse), (1, serve), (0, serve), (1, serve)]
                 (pool_init [(''/a'', None), (''/b'', None)] 2)
       in queue p = [Some (''/a'', None)]
        \<and> alive p = 0
        \<and> requests_done p = 1
        \<and> total_connection_errors p = 1
        \<and> map (\<lambda>w. trace (fst w)) (workers p)
            = [[Sleep (1 / 10)], [Connect 0, Send 0 (''/b'', None), Served 0, Close 0]])"
proof -
  define cfg0 where "cfg0 = stress_test_config (\<lambda>t. 0)"
  define refuse where "refuse = \<lparr>running = True, get = Empty, socket_ok = True,
                      connect_ok = False, outcome = NoResponse\<rparr>"
  define serve where "serve = \<lparr>running = True, get = Empty, socket_ok = True,
                      connect_ok = True, outcome = Response 200 5 3\<rparr>"
  define a where "a = (''/a'', None :: string option)"
  define b where "b = (''/b'', None :: string option)"
  define wa where "wa = worker_init\<lparr>connection_errors := 1, puts := [a], next_conn := 1,
                                    trace := [Sleep (1 / 10)]\<rparr>"
  define wb where "wb = worker_init\<lparr>sock := Some 0, requests_on_connection := 1,
        requests_sent := 1, requests_completed := 1, bytes_received := 5, latencies := [3],
        per_endpoint := [''/b'' \<mapsto> (1, 5)], next_conn := 1,
        trace := [Connect 0, Send 0 b, Served 0]\<rparr>"
  define p0 where "p0 = pool_init [a, b] 2"
  define p1 where "p1 = \<lparr>queue = [Some b, None, None, Some a],
                         workers = [(wa, Continue), (worker_init, Continue)]\<rparr>"
  define p2 where "p2 = \<lparr>queue = [None, None, Some a],
                         workers = [(wa, Continue), (wb, Continue)]\<rparr>"
  define p3 where "p3 = \<lparr>queue = [None, Some a],
                         workers = [(wa, Exit), (wb, Continue)]\<rparr>"
  define p4 where "p4 = \<lparr>queue = [Some a],
                         workers = [(wa, Exit), (wb\<lparr>trace := trace wb @ [Close 0]\<rparr>, Exit)]\<rparr>"
  have s1: "pool_step cfg0 (0, refuse) p0 = p1"
    by (simp add: p0_def p1_def pool_init_def main_queue_def pool_step_def worker_iteration_def
          worker_step_def refuse_def cfg0_def stress_test_config_def worker_init_def wa_def
          close_sock_def sleep_def Let_def numeral_2_eq_2)
  have s2: "pool_step cfg0 (1, serve) p1 = p2"
    by (simp add: p1_def p2_def pool_step_def worker_iteration_def worker_step_def serve_def
          cfg0_def stress_test_config_def worker_init_def wb_def do_exchange_def
          exchange_succeeded_def close_sock_def Let_def b_def)
  have s3: "pool_step cfg0 (0, serve) p2 = p3"
    by (simp add: p2_def p3_def pool_step_def worker_iteration_def worker_step_def serve_def
          close_sock_def wa_def worker_init_def)
  have s4: "pool_step cfg0 (1, serve) p3 = p4"
    by (simp add: p3_def p4_def pool_step_def worker_iteration_def worker_step_def serve_def
          close_sock_def wb_def worker_init_def)
  have run: "pool_run cfg0 [(0, refuse), (1, serve), (0, serve), (1, serve)] p0 = p4"
    by (simp only: pool_run_def foldl.simps s1 s2 s3 s4)
  have ev: "queue p4 = [Some a] \<and> alive p4 = 0 \<and> requests_done p4 = 1
        \<and> total_connection_errors p4 = 1
        \<and> map (\<lambda>w. trace (fst w)) (workers p4) = [[Sleep (1 / 10)], [Connect 0, Send 0 b, Served 0, Close 0]]"
    by (simp add: p4_def alive_def requests_done_def total_connection_errors_def wa_def wb_def
          worker_init_def)
  have general: "\<exists>waiting k requeued.
       queue (pool_run cfg schedule (pool_init tasks n))
         = map Some waiting @ replicate k None @ map Some requeued
     \<and> alive (pool_run cfg schedule (pool_init tasks n)) \<le> k
     \<and> length requeued = total_connection_errors (pool_run cfg schedule (pool_init tasks n))
     \<and> requests_done (pool_run cfg schedule (pool_init tasks n))
           + length waiting + length requeued = length tasks"
    by (rule pool_run_shape [OF pool_init_shape])
  from run ev have "let refuse = \<lparr>running = True, get = Empty, socket_ok = True, connect_ok = False,
                      outcome = NoResponse\<rparr>;
           serve = \<lparr>running = True, get = Empty, socket_ok = True, connect_ok = True,
                     outcome = Response 200 5 3\<rparr>;
           p = pool_run (stress_test_config (\<lambda>t. 0))
                 [(0, refuse), (1, serve), (0, serve), (1, serve)]
                 (pool_init [(''/a'', None), (''/b'', None)] 2)
       in queue p = [Some (''/a'', None)]
        \<and> alive p = 0
        \<and> requests_done p = 1
        \<and> total_connection_errors p = 1
        \<and> map (\<lambda>w. trace (fst w)) (workers p)
            = [[Sleep (1 / 10)], [Connect 0, Send 0 (''/b'', None), Served 0, Close 0]]"
    unfolding Let_def cfg0_def [symmetric] refuse_def [symmetric] serve_def [symmetric]
      a_def [symmetric] b_def [symmetric] p0_def [symmetric]
    by simp
  with general show ?thesis by (rule conjI)
qed

subsection \<open>Failed exchanges and the connection limit\<close>

lemma failed_exchange_step:
  assumes "running e" and "get e = Task t"
    and "outcome e \<in> {SendRaises, ResponseRaises, NoResponse}"
    and "(sock s \<noteq> None \<and> requests_on_connection s < REQUESTS_PER_CONNECTION cfg)
         \<or> (socket_ok e \<and> connect_ok e)"
    and "c = (if sock s \<noteq> None \<and> requests_on_connection s < REQUESTS_PER_CONNECTION cfg
              then the (sock s) else next_conn s)"
    and "worker_step cfg e s = (s', ctl)"
  shows "ctl = Continue
     \<and> requests_failed s' = requests_failed s + 1
     \<and> requests_completed s' = requests_completed s
     \<and> connection_errors s' = connection_errors s
     \<and> puts s' = puts s
     \<and> sock s' = None
     \<and> requests_on_connection s' = 0
     \<and> next_conn s' = (if sock s \<noteq> None \<and> requests_on_connection s < REQUESTS_PER_CONNECTION cfg
                        then next_conn s else next_conn s + 1)
     \<and> trace s' =
         (if sock s \<noteq> None \<and> requests_on_connection s < REQUESTS_PER_CONNECTION cfg
          then trace s else trace (close_sock s) @ [Connect c])
         @ [Send c t, Close c]
         @ (case error_backoff cfg of None \<Rightarrow> [] | Some d \<Rightarrow> [Sleep d])"
  using assms
  by (auto simp: worker_step_def do_exchange_def exchange_failed_def close_sock_def sleep_def
        Let_def split: option.splits if_splits)

text \<open>
  C4. When the exchange on a live connection \<open>c\<close> fails (\<open>sendall\<close> raises,
  \<open>parse_response\<close> raises or returns no status), whether \<open>c\<close> was kept from before
  or connected in this iteration, the worker adds exactly one to \<open>requests_failed\<close>,
  closes \<open>c\<close> and forgets it, resets the counter to zero, puts nothing back on the queue
  and goes on; however the loop continues, nothing is ever sent on \<open>c\<close> again.
\<close>

theorem failed_exchange_drops_connection:
  assumes "s = worker_run cfg es0 worker_init"
    and "running e" and "get e = Task t"
    and "outcome e \<in> {SendRaises, ResponseRaises, NoResponse}"
    and "(sock s \<noteq> None \<and> requests_on_connection s < REQUESTS_PER_CONNECTION cfg)
         \<or> (socket_ok e \<and> connect_ok e)"
    and "c = (if sock s \<noteq> None \<and> requests_on_connection s < REQUESTS_PER_CONNECTION cfg
              then the (sock s) else next_conn s)"
    and "worker_step cfg e s = (s', ctl)"
  shows "ctl = Continue
     \<and> requests_failed s' = requests_failed s + 1
     \<and> requests_completed s' = requests_completed s
     \<and> connection_errors s' = connection_errors s
     \<and> puts s' = puts s
     \<and> sock s' = None
     \<and> requests_on_connection s' = 0
     \<and> trace s' =
         (if sock s \<noteq> None \<and> requests_on_connection s < REQUESTS_PER_CONNECTION cfg
          then trace s else trace (close_sock s) @ [Connect c])
         @ [Send c t, Close c]
         @ (case error_backoff cfg of None \<Rightarrow> [] | Some d \<Rightarrow> [Sleep d])
     \<and> (\<exists>new. trace (worker_run cfg es s') = trace s' @ new \<and> (\<forall>t'. Send c t' \<notin> set new))"
proof -
  note step = failed_exchange_step [OF assms(2-7)]
  have "\<forall>c. sock worker_init = Some c \<longrightarrow> c < next_conn worker_init"
    by (simp add: worker_init_def)
  then have "\<forall>c. sock s = Some c \<longrightarrow> c < next_conn s"
    unfolding assms(1) by (rule numbered_run)
  with assms(6) step have "c < next_conn s'" by (auto split: if_splits)
  moreover from step have "sock s' \<noteq> Some c" by simp
  ultimately have "\<exists>new. trace (worker_run cfg es s') = trace s' @ new \<and> (\<forall>t'. Send c t' \<notin> set new)"
    by (intro no_send_run)
  with step show ?thesis by blast
qed

theorem failed_exchange_drops_connection_witness:
  "requests_failed (fst (worker_step (stress_test_config (\<lambda>t. 0))
          \<lparr>running = True, get = Task (''/'', None), socket_ok = True, connect_ok = True,
           outcome = NoResponse\<rparr> worker_init)) = 1
   \<and> sock (fst (worker_step (stress_test_config (\<lambda>t. 0))
          \<lparr>running = True, get = Task (''/'', None), socket_ok = True, connect_ok = True,
           outcome = NoResponse\<rparr> worker_init)) = None
   \<and> puts (fst (worker_step (stress_test_config (\<lambda>t. 0))
          \<lparr>running = True, get = Task (''/'', None), socket_ok = True, connect_ok = True,
           outcome = NoResponse\<rparr> worker_init)) = []
   \<and> trace (fst (worker_step (stress_test_config (\<lambda>t. 0))
          \<lparr>running = True, get = Task (''/'', None), socket_ok = True, connect_ok = True,
           outcome = NoResponse\<rparr> worker_init))
       = [Connect 0, Send 0 (''/'', None), Close 0, Sleep (1 / 100)]"
proof -
  let ?e = "\<lparr>running = True, get = Task (''/'', None), socket_ok = True, connect_ok = True,
           outcome = NoResponse\<rparr>"
  let ?cfg = "stress_test_config (\<lambda>t. 0)"
  have a: "worker_init = worker_run ?cfg [] worker_init" by simp
  have b: "worker_step ?cfg ?e worker_init =
          (fst (worker_step ?cfg ?e worker_init), snd (worker_step ?cfg ?e worker_init))"
    by simp
  have c: "(0::nat) = (if sock worker_init \<noteq> None
                \<and> requests_on_connection worker_init < REQUESTS_PER_CONNECTION ?cfg
              then the (sock worker_init) else next_conn worker_init)"
    by (simp add: worker_init_def)
  from failed_exchange_drops_connection [of worker_init ?cfg "[]" ?e "(''/'', None)" 0 _ _ "[]",
        OF a _ _ _ _ c b]
  show ?thesis
    by (simp add: worker_init_def stress_test_config_def close_sock_def)
qed

text \<open>
  C7. With a positive \<open>REQUESTS_PER_CONNECTION\<close>, in every state the loop reaches: each
  request was sent on a connection that had served fewer requests than the limit, so no
  connection serves more than the limit; the counter is the number of requests served on
  the current connection; while the same connection stays in use the counter never goes
  down; a connection that newly becomes current is fresh and its counter restarted from
  zero; and a task arriving when the counter has reached the limit makes the worker close
  the connection first and send nothing more on it.
\<close>

theorem connection_replaced_at_limit:
  assumes "0 < REQUESTS_PER_CONNECTION cfg"
    and "s = worker_run cfg es worker_init"
    and "s' = fst (worker_step cfg e s)"
  shows "sends_below (REQUESTS_PER_CONNECTION cfg) (\<lambda>c. 0) (trace s)
     \<and> (\<forall>c. served (trace s) c \<le> REQUESTS_PER_CONNECTION cfg)
     \<and> (\<forall>c. sock s = Some c \<longrightarrow> requests_on_connection s = served (trace s) c)
     \<and> (\<forall>c. sock s = Some c \<and> sock s' = Some c \<longrightarrow>
            requests_on_connection s \<le> requests_on_connection s')
     \<and> (\<forall>c. sock s' = Some c \<and> sock s \<noteq> Some c \<longrightarrow>
            served (trace s) c = 0 \<and> requests_on_connection s' = served (trace s') c
            \<and> requests_on_connection s' \<le> 1)
     \<and> (\<forall>c t. sock s = Some c \<and> REQUESTS_PER_CONNECTION cfg \<le> requests_on_connection s
              \<and> running e \<and> get e = Task t \<longrightarrow>
            (\<exists>new. trace s' = trace s @ Close c # new \<and> (\<forall>t'. Send c t' \<notin> set new)))"
proof -
  have i: "worker_inv cfg s"
    unfolding assms(2) using assms(1) inv_init by (rule inv_run)
  then have i': "worker_inv cfg s'"
    unfolding assms(3) using assms(1) by (rule inv_step)
  have c4: "\<forall>c. sock s = Some c \<and> sock s' = Some c \<longrightarrow>
            requests_on_connection s \<le> requests_on_connection s'"
    using i unfolding assms(3)
    by (auto simp: worker_inv_def worker_step_def do_exchange_def exchange_failed_def
          exchange_succeeded_def close_sock_def sleep_def Let_def
        split: queue_get.splits option.splits exchange.splits if_splits prod.splits)
  have c5: "\<forall>c. sock s' = Some c \<and> sock s \<noteq> Some c \<longrightarrow>
            served (trace s) c = 0 \<and> requests_on_connection s' \<le> 1"
    using i unfolding assms(3)
    by (auto simp: worker_inv_def worker_step_def do_exchange_def exchange_failed_def
          exchange_succeeded_def close_sock_def sleep_def Let_def
        split: queue_get.splits option.splits exchange.splits if_splits prod.splits)
  have c6: "\<forall>c t. sock s = Some c \<and> REQUESTS_PER_CONNECTION cfg \<le> requests_on_connection s
              \<and> running e \<and> get e = Task t \<longrightarrow>
            (\<exists>new. trace s' = trace s @ Close c # new \<and> (\<forall>t'. Send c t' \<notin> set new))"
    using i unfolding assms(3)
    by (auto simp: worker_inv_def worker_step_def do_exchange_def exchange_failed_def
          exchange_succeeded_def close_sock_def sleep_def Let_def
        split: queue_get.splits option.splits exchange.splits if_splits prod.splits)
  from i i' c4 c5 c6 show ?thesis
    unfolding worker_inv_def by blast
qed

theorem connection_replaced_at_limit_witness:
  "trace (worker_run ((stress_test_config (\<lambda>t. 0))\<lparr>REQUESTS_PER_CONNECTION := 2\<rparr>)
           (replicate 3 \<lparr>running = True, get = Task (''/'', None), socket_ok = True,
                          connect_ok = True, outcome = Response 200 5 1\<rparr>)
           worker_init)
     = [Connect 0, Send 0 (''/'', None), Served 0, Send 0 (''/'', None), Served 0,
        Close 0, Connect 1, Send 1 (''/'', None), Served 1]
   \<and> sends_below 2 (\<lambda>c. 0)
       (trace (worker_run ((stress_test_config (\<lambda>t. 0))\<lparr>REQUESTS_PER_CONNECTION := 2\<rparr>)
           (replicate 3 \<lparr>running = True, get = Task (''/'', None), socket_ok = True,
                          connect_ok = True, outcome = Response 200 5 1\<rparr>)
           worker_init))
   \<and> requests_on_connection
       (worker_run ((stress_test_config (\<lambda>t. 0))\<lparr>REQUESTS_PER_CONNECTION := 2\<rparr>)
           (replicate 3 \<lparr>running = True, get = Task (''/'', None), socket_ok = True,
                          connect_ok = True, outcome = Response 200 5 1\<rparr>)
           worker_init) = 1"
proof -
  let ?cfg = "(stress_test_config (\<lambda>t. 0))\<lparr>REQUESTS_PER_CONNECTION := 2\<rparr>"
  let ?e = "\<lparr>running = True, get = Task (''/'', None), socket_ok = True,
             connect_ok = True, outcome = Response 200 5 1\<rparr>"
  have pos: "0 < REQUESTS_PER_CONNECTION ?cfg" by simp
  have r: "replicate 3 ?e = [?e, ?e, ?e]" by (simp add: numeral_3_eq_3)
  from connection_replaced_at_limit [OF pos refl refl, of "replicate 3 ?e" ?e]
  have "sends_below 2 (\<lambda>c. 0) (trace (worker_run ?cfg (replicate 3 ?e) worker_init))"
    by simp
  moreover have "trace (worker_run ?cfg (replicate 3 ?e) worker_init)
     = [Connect 0, Send 0 (''/'', None), Served 0, Send 0 (''/'', None), Served 0,
        Close 0, Connect 1, Send 1 (''/'', None), Served 1]
     \<and> requests_on_connection (worker_run ?cfg (replicate 3 ?e) worker_init) = 1"
    unfolding r
    by (simp add: worker_step_def do_exchange_def exchange_succeeded_def close_sock_def
          worker_init_def stress_test_config_def Let_def)
  ultimately show ?thesis by simp
qed





section \<open>Properties of response framing\<close>

lemma startswith_append:
  "startswith s sub \<Longrightarrow> startswith (s @ q) sub"
  by (auto simp: startswith_def take_eq_Nil dest!: arg_cong [where f = length] split: if_splits)

lemma startswith_length: "startswith s sub \<Longrightarrow> length sub \<le> length s"
  by (auto simp: startswith_def dest!: arg_cong [where f = length])

lemma contains_length: "contains sub s \<Longrightarrow> length sub \<le> length s"
  by (induction s) (auto dest: startswith_length)

lemma startswith_append_iff:
  "length sub \<le> length s \<Longrightarrow> startswith (s @ q) sub \<longleftrightarrow> startswith s sub"
  by (simp add: startswith_def)

lemma contains_append: "contains sub s \<Longrightarrow> contains sub (s @ q)"
proof (induction s)
  case Nil
  then show ?case by (cases q) (auto simp: startswith_def)
next
  case (Cons c cs)
  then show ?case using startswith_append [of "c # cs" sub q] by auto
qed

lemma find_bounds:
  "contains sub s \<Longrightarrow> 0 \<le> py_find sub s \<and> nat (py_find sub s) + length sub \<le> length s"
proof (induction s)
  case Nil
  then show ?case by simp
next
  case (Cons c cs)
  show ?case
  proof (cases "startswith (c # cs) sub")
    case True
    then show ?thesis using startswith_length [OF True] by simp
  next
    case False
    with Cons.prems have "contains sub cs" by simp
    from Cons.IH [OF this] False show ?thesis by (simp add: Let_def nat_add_distrib)
  qed
qed

lemma find_append:
  "contains sub s \<Longrightarrow> py_find sub (s @ q) = py_find sub s"
proof (induction s)
  case Nil
  then show ?case by (cases q) (auto simp: startswith_def)
next
  case (Cons c cs)
  from Cons.prems have len: "length sub \<le> length (c # cs)" by (rule contains_length)
  show ?case
  proof (cases "startswith (c # cs) sub")
    case True
    then have "startswith ((c # cs) @ q) sub" by (rule startswith_append)
    with True show ?thesis by simp
  next
    case False
    with len have n: "\<not> startswith ((c # cs) @ q) sub"
      using startswith_append_iff [of sub "c # cs" q] by simp
    from False Cons.prems have "contains sub cs" by simp
    from Cons.IH [OF this] False n show ?thesis by simp
  qed
qed

lemma recv_chunks:
  assumes "chunks_only sk" and "sk \<noteq> []" and "0 < n"
  shows "\<exists>d sk'. recv n sk = (Inr d, sk') \<and> d \<noteq> [] \<and> d @ content sk' = content sk
                \<and> chunks_only sk' \<and> length d \<le> n"
proof (cases sk)
  case Nil
  with assms show ?thesis by simp
next
  case (Cons ev sk0)
  show ?thesis
  proof (cases ev)
    case Timeout
    with Cons assms show ?thesis by simp
  next
    case (Chunk c)
    with Cons assms show ?thesis by auto
  qed
qed

lemma content_Nil: "chunks_only sk \<Longrightarrow> content sk = [] \<Longrightarrow> sk = []"
  by (induction sk rule: chunks_only.induct) auto

lemma read_headers_complete:
  "0 < n \<Longrightarrow> chunks_only sk \<Longrightarrow> \<not> contains CRLFCRLF acc \<Longrightarrow> contains CRLFCRLF (acc @ content sk) \<Longrightarrow>
         \<exists>d sk'. read_headers n sk acc = Inr (Some (acc @ d), sk') \<and> d @ content sk' = content sk
                \<and> chunks_only sk' \<and> contains CRLFCRLF (acc @ d)"
proof (induction n sk acc rule: read_headers.induct)
  case (1 n sk response)
  from "1.prems" have "content sk \<noteq> []" by auto
  then have "sk \<noteq> []" by auto
  from recv_chunks [OF "1.prems"(2) this "1.prems"(1)]
  obtain d sk' where r: "recv n sk = (Inr d, sk')" "d \<noteq> []" "d @ content sk' = content sk"
      "chunks_only sk'"
    by blast
  show ?case
  proof (cases "contains CRLFCRLF (response @ d)")
    case True
    with r have "read_headers n sk response = Inr (Some (response @ d), sk')"
      by (subst read_headers.simps) simp
    with r True show ?thesis by blast
  next
    case False
    have "contains CRLFCRLF ((response @ d) @ content sk')"
      using "1.prems"(4) r(3) by (metis append_assoc)
    from "1.IH" [OF r(1) [symmetric] refl r(2) False "1.prems"(1) r(4) False this]
    obtain d' sk'' where ih: "read_headers n sk' (response @ d) = Inr (Some ((response @ d) @ d'), sk'')"
        "d' @ content sk'' = content sk'" "chunks_only sk''"
        "contains CRLFCRLF ((response @ d) @ d')"
      by blast
    from r False ih(1) have "read_headers n sk response = Inr (Some (response @ (d @ d')), sk'')"
      by (subst read_headers.simps) simp
    moreover from ih(2) r(3) have "(d @ d') @ content sk'' = content sk" by simp
    moreover from ih(4) have "contains CRLFCRLF (response @ (d @ d'))" by simp
    ultimately show ?thesis using ih(3) by blast
  qed
qed

lemma read_body_complete:
  "0 < m \<Longrightarrow> chunks_only sk \<Longrightarrow> br + int (length (content sk)) = cl \<Longrightarrow>
         read_body m sk br cl = Inr (cl, [])"
proof (induction m sk br cl rule: read_body.induct)
  case (1 m sk body_received content_length)
  show ?case
  proof (cases "body_received < content_length")
    case False
    with "1.prems" have "content sk = []" "body_received = content_length" by auto
    with "1.prems"(2) have "sk = []" by (auto dest: content_Nil)
    with False \<open>body_received = content_length\<close> show ?thesis
      by (subst read_body.simps) simp
  next
    case True
    let ?k = "nat (min (content_length - body_received) (int m))"
    from True "1.prems"(1) have k: "0 < ?k" by simp
    from True "1.prems" have "content sk \<noteq> []" by auto
    then have "sk \<noteq> []" by auto
    from recv_chunks [OF "1.prems"(2) this k]
    obtain d sk' where r: "recv ?k sk = (Inr d, sk')" "d \<noteq> []" "d @ content sk' = content sk"
        "chunks_only sk'"
      by blast
    from r(3) "1.prems"(3) have "body_received + int (length d) + int (length (content sk')) = content_length"
      by (metis (no_types) add.assoc length_append of_nat_add)
    from "1.IH" [OF True r(1) [symmetric] refl r(2) "1.prems"(1) r(4) this]
    have "read_body m sk' (body_received + int (length d)) content_length = Inr (content_length, [])" .
    with True r show ?thesis by (subst read_body.simps) simp
  qed
qed

lemma read_headers_result:
  assumes "chunks_only sk" and "contains CRLFCRLF (content sk)" and "0 < n"
  shows "\<exists>d sk1. read_headers n sk [] = Inr (Some d, sk1) \<and> chunks_only sk1
           \<and> py_find CRLFCRLF d = py_find CRLFCRLF (content sk)
           \<and> take (nat (py_find CRLFCRLF d)) d
               = take (nat (py_find CRLFCRLF (content sk))) (content sk)
           \<and> int (length d) + int (length (content sk1)) = int (length (content sk))"
proof -
  have "\<not> contains CRLFCRLF []" by (simp add: CRLFCRLF_def)
  from read_headers_complete [OF assms(3,1) this] assms(2)
  obtain d sk1 where r: "read_headers n sk [] = Inr (Some d, sk1)" "d @ content sk1 = content sk"
      "chunks_only sk1" "contains CRLFCRLF d"
    by auto
  from r(4) have f: "py_find CRLFCRLF (d @ content sk1) = py_find CRLFCRLF d" by (rule find_append)
  from find_bounds [OF r(4)] have "nat (py_find CRLFCRLF d) \<le> length d" by simp
  then have "take (nat (py_find CRLFCRLF d)) (d @ content sk1) = take (nat (py_find CRLFCRLF d)) d"
    by simp
  moreover have "int (length d) + int (length (content sk1)) = int (length (d @ content sk1))"
    by simp
  ultimately show ?thesis using r f by (metis (no_types))
qed

lemma stress_test_frames:
  assumes "chunks_only sk" and "contains CRLFCRLF (content sk)"
    and "stress_test_headers (decode (take (nat (py_find CRLFCRLF (content sk))) (content sk)))
           = Inr (st, cl)"
    and "int (length (content sk)) - (py_find CRLFCRLF (content sk) + 4) = cl"
  shows "stress_test_parse_response sk =
           Inr \<lparr>status = Some st, body_length = cl, body_read = cl, rest = []\<rparr>"
proof -
  from read_headers_result [OF assms(1,2), of 4096]
  obtain d sk1 where r: "read_headers 4096 sk [] = Inr (Some d, sk1)" "chunks_only sk1"
      "py_find CRLFCRLF d = py_find CRLFCRLF (content sk)"
      "take (nat (py_find CRLFCRLF d)) d
         = take (nat (py_find CRLFCRLF (content sk))) (content sk)"
      "int (length d) + int (length (content sk1)) = int (length (content sk))"
    by auto
  from r(5) assms(4) r(3)
  have "int (length d) - (py_find CRLFCRLF d + 4) + int (length (content sk1)) = cl"
    by simp
  with r(2) have "read_body 65536 sk1 (int (length d) - (py_find CRLFCRLF d + 4)) cl = Inr (cl, [])"
    by (intro read_body_complete) simp_all
  with r assms(3) show ?thesis
    by (simp add: stress_test_parse_response_def Let_def)
qed


lemma extreme_frames:
  assumes "chunks_only sk" and "contains CRLFCRLF (content sk)" and "0 < n"
    and "header_data = decode (take (nat (py_find CRLFCRLF (content sk))) (content sk))"
    and "extreme_content_length (py_split header_data CRLF) = Inr cl"
    and "extreme_status header_data = Inr st"
    and "int (length (content sk)) - (py_find CRLFCRLF (content sk) + 4) = cl"
  shows "extreme_try n sk =
           Inr \<lparr>status = Some st, body_length = cl, body_read = cl, rest = []\<rparr>"
proof -
  from read_headers_result [OF assms(1,2,3)]
  obtain d sk1 where r: "read_headers n sk [] = Inr (Some d, sk1)" "chunks_only sk1"
      "py_find CRLFCRLF d = py_find CRLFCRLF (content sk)"
      "take (nat (py_find CRLFCRLF d)) d
         = take (nat (py_find CRLFCRLF (content sk))) (content sk)"
      "int (length d) + int (length (content sk1)) = int (length (content sk))"
    by auto
  from r(5) assms(7) r(3)
  have "int (length d) - (py_find CRLFCRLF d + 4) + int (length (content sk1)) = cl"
    by simp
  with r(2) assms(3)
  have "read_body n sk1 (int (length d) - (py_find CRLFCRLF d + 4)) cl = Inr (cl, [])"
    by (intro read_body_complete) simp_all
  with r assms(4,5,6) show ?thesis
    by (simp add: extreme_try_def Let_def)
qed








text \<open>
  C2, as the code has it. When the response arrives in full (an ASCII header block up to
  the first blank line, then exactly the declared number of body bytes, in any split into
  non-empty reads), the body length that \<open>parse_response\<close> returns and the worker adds
  to \<open>bytes_received\<close> is the number of bytes read for the body: the bytes after the
  blank line, none of the header, and nothing is left unread. The worker of
  sustained\_load.py does not frame the response: it records the size of its single read
  of up to 4096 bytes, header bytes included.
\<close>

theorem body_length_is_bytes_read_when_complete:
  assumes "chunks_only sk" and "contains CRLFCRLF (content sk)"
    and "header_end = py_find CRLFCRLF (content sk)"
    and "ascii (take (nat header_end) (content sk))"
    and "header_data = decode (take (nat header_end) (content sk))"
    and "int (length (content sk)) - (header_end + 4) = cl"
    and "0 < n"
  shows "(stress_test_headers header_data = Inr (st, cl) \<longrightarrow>
            (\<exists>p. stress_test_parse_response sk = Inr p \<and> body_length p = body_read p
                 \<and> body_read p = int (length (content sk)) - (header_end + 4) \<and> rest p = [])
            \<and> stress_test_receive sk elapsed = Response st cl elapsed)
     \<and> (extreme_content_length (py_split header_data CRLF) = Inr cl
          \<and> extreme_status header_data = Inr st \<longrightarrow>
            (\<exists>p. extreme_try n sk = Inr p \<and> body_length p = body_read p
                 \<and> body_read p = int (length (content sk)) - (header_end + 4) \<and> rest p = [])
            \<and> extreme_receive n sk elapsed = Response st cl elapsed)
     \<and> (outcome e = Response st cl elapsed \<longrightarrow>
            bytes_received (do_exchange cfg e c t s) = bytes_received s + cl)
     \<and> (\<forall>d sk'. sk = Chunk d # sk' \<longrightarrow>
            sustained_worker_attempt (sustained_exchange sk elapsed) s0
              = IntervalStats_record True elapsed (min (length d) 4096) s0)"
proof -
  have hd: "header_data = decode (take (nat (py_find CRLFCRLF (content sk))) (content sk))"
    using assms(3,5) by simp
  have len: "int (length (content sk)) - (py_find CRLFCRLF (content sk) + 4) = cl"
    using assms(3,6) by simp
  have a: "stress_test_headers header_data = Inr (st, cl) \<longrightarrow>
            (\<exists>p. stress_test_parse_response sk = Inr p \<and> body_length p = body_read p
                 \<and> body_read p = int (length (content sk)) - (header_end + 4) \<and> rest p = [])
            \<and> stress_test_receive sk elapsed = Response st cl elapsed"
    using stress_test_frames [OF assms(1,2) _ len, of st] hd assms(6)
    by (simp add: stress_test_receive_def)
  have b: "extreme_content_length (py_split header_data CRLF) = Inr cl
          \<and> extreme_status header_data = Inr st \<longrightarrow>
            (\<exists>p. extreme_try n sk = Inr p \<and> body_length p = body_read p
                 \<and> body_read p = int (length (content sk)) - (header_end + 4) \<and> rest p = [])
            \<and> extreme_receive n sk elapsed = Response st cl elapsed"
    using extreme_frames [OF assms(1,2,7) hd _ _ len, of st] assms(6)
    by (simp add: extreme_receive_def extreme_parse_response_def)
  have c: "outcome e = Response st cl elapsed \<longrightarrow>
            bytes_received (do_exchange cfg e c t s) = bytes_received s + cl"
    by (simp add: do_exchange_def exchange_succeeded_def Let_def split: prod.splits option.splits)
  have d: "\<forall>d sk'. sk = Chunk d # sk' \<longrightarrow>
            sustained_worker_attempt (sustained_exchange sk elapsed) s0
              = IntervalStats_record True elapsed (min (length d) 4096) s0"
    using assms(1) by (auto simp: sustained_exchange_def)
  from a b c d show ?thesis by blast
qed

theorem body_length_is_bytes_read_when_complete_witness:
  "stress_test_parse_response
           [Chunk (''HTTP/1.1 200 OK'' @ CRLF @ ''Content-Le''),
            Chunk (''ngth: 5'' @ CRLF @ CRLF @ ''ab''), Chunk ''cde'']
     = Inr \<lparr>status = Some 200, body_length = 5, body_read = 5, rest = []\<rparr>
   \<and> stress_test_receive
           [Chunk (''HTTP/1.1 200 OK'' @ CRLF @ ''Content-Le''),
            Chunk (''ngth: 5'' @ CRLF @ CRLF @ ''ab''), Chunk ''cde''] 1 = Response 200 5 1
   \<and> extreme_receive 65536
           [Chunk (''HTTP/1.1 200 OK'' @ CRLF @ ''Content-Le''),
            Chunk (''ngth: 5'' @ CRLF @ CRLF @ ''ab''), Chunk ''cde''] 1 = Response 200 5 1"
proof -
  define sk where "sk = [Chunk (''HTTP/1.1 200 OK'' @ CRLF @ ''Content-Le''),
            Chunk (''ngth: 5'' @ CRLF @ CRLF @ ''ab''), Chunk ''cde'']"
  define H where "H = ''HTTP/1.1 200 OK'' @ CRLF @ ''Content-Length: 5''"
  define l1 where "l1 = ''HTTP/1.1 200 OK''"
  define l2 where "l2 = ''Content-Length: 5''"
  have w1: "chunks_only sk" unfolding sk_def by code_simp
  have w2: "contains CRLFCRLF (content sk)" unfolding sk_def by code_simp
  have w3: "(34::int) = py_find CRLFCRLF (content sk)" unfolding sk_def by code_simp
  have w4: "take (nat 34) (content sk) = H" unfolding sk_def H_def by code_simp
  have w5: "ascii H" unfolding H_def by code_simp
  have w6: "decode H = H" unfolding H_def by code_simp
  have w7: "int (length (content sk)) - (34 + 4) = 5" unfolding sk_def by code_simp
  have s1: "py_split H CRLF = [l1, l2]" unfolding H_def l1_def l2_def by code_simp
  have s2: "split_ws l1 = [''HTTP/1.1'', ''200'', ''OK'']" unfolding l1_def by code_simp
  have s3: "py_int ''200'' = Inr 200" by code_simp
  have s4: "add_header Map.empty l2 ''content-length'' = Some ''5''"
    unfolding l2_def by code_simp
  have s5: "py_int ''5'' = Inr 5" by code_simp
  have s6: "extreme_content_length [l1, l2] = Inr 5" unfolding l1_def l2_def by code_simp
  have h: "stress_test_headers H = Inr (200, 5)"
    by (simp add: stress_test_headers_def Let_def second_def s1 s2 s3 s4 s5)
  have x: "extreme_status H = Inr 200"
    by (simp add: extreme_status_def second_def s1 s2 s3)
  have a4: "ascii (take (nat 34) (content sk))" using w4 w5 by simp
  have a5: "H = decode (take (nat 34) (content sk))" using w4 w6 by simp
  have pos: "(0::nat) < 65536" by simp
  from body_length_is_bytes_read_when_complete [OF w1 w2 w3 a4 a5 w7 pos, of 200 1] h x s1 s6 w7
  have "(\<exists>p. stress_test_parse_response sk = Inr p \<and> body_length p = body_read p
              \<and> body_read p = 5 \<and> rest p = [])"
       "stress_test_receive sk 1 = Response 200 5 1"
       "extreme_receive 65536 sk 1 = Response 200 5 1"
    by simp_all
  moreover then obtain p where p: "stress_test_parse_response sk = Inr p"
      "body_length p = body_read p" "body_read p = 5" "rest p = []"
    by blast
  moreover from p(1) \<open>stress_test_receive sk 1 = Response 200 5 1\<close>
  have "status p = Some 200"
    by (auto simp: stress_test_receive_def split: option.splits)
  ultimately show ?thesis unfolding sk_def by (cases p) simp
qed

text \<open>
  When the peer closes after 3 of 10 declared body bytes, \<open>parse_response\<close> still
  returns 10 and the worker records 10 bytes, though 3 were read. The worker of
  sustained\_load.py records 38 bytes for a response whose body is empty.
\<close>

theorem body_length_is_declared_not_read:
  "stress_test_parse_response
      [Chunk (''HTTP/1.1 200 OK'' @ CRLF @ ''Content-Length: 10'' @ CRLF @ CRLF @ ''abc'')]
     = Inr \<lparr>status = Some 200, body_length = 10, body_read = 3, rest = []\<rparr>
   \<and> stress_test_receive
      [Chunk (''HTTP/1.1 200 OK'' @ CRLF @ ''Content-Length: 10'' @ CRLF @ CRLF @ ''abc'')] 1
     = Response 200 10 1
   \<and> sustained_worker_attempt
       (sustained_exchange
          [Chunk (''HTTP/1.1 200 OK'' @ CRLF @ ''Content-Length: 0'' @ CRLF @ CRLF)] 1)
       IntervalStats_init
     = \<lparr>iv_completed = 1, iv_failed = 0, iv_latencies = [1], iv_bytes_received = 38\<rparr>"
proof -
  define R where "R = ''HTTP/1.1 200 OK'' @ CRLF @ ''Content-Length: 10'' @ CRLF @ CRLF @ ''abc''"
  define H where "H = ''HTTP/1.1 200 OK'' @ CRLF @ ''Content-Length: 10''"
  define l1 where "l1 = ''HTTP/1.1 200 OK''"
  define l2 where "l2 = ''Content-Length: 10''"
  define Z where "Z = ''HTTP/1.1 200 OK'' @ CRLF @ ''Content-Length: 0'' @ CRLF @ CRLF"
  have r0: "R \<noteq> []" unfolding R_def by simp
  have r1: "take 4096 R = R" unfolding R_def by code_simp
  have r2: "length R = 42" unfolding R_def by code_simp
  have r3: "contains CRLFCRLF R" unfolding R_def by code_simp
  have r4: "py_find CRLFCRLF R = 35" unfolding R_def by code_simp
  have r5: "decode (take 35 R) = H" unfolding R_def H_def by code_simp
  have s1: "py_split H CRLF = [l1, l2]" unfolding H_def l1_def l2_def by code_simp
  have s2: "split_ws l1 = [''HTTP/1.1'', ''200'', ''OK'']" unfolding l1_def by code_simp
  have s3: "py_int ''200'' = Inr 200" by code_simp
  have s4: "add_header Map.empty l2 ''content-length'' = Some ''10''"
    unfolding l2_def by code_simp
  have s5: "py_int ''10'' = Inr 10" by code_simp
  have h: "stress_test_headers H = Inr (200, 10)"
    by (simp add: stress_test_headers_def Let_def second_def s1 s2 s3 s4 s5)
  have rh: "read_headers 4096 [Chunk R] [] = Inr (Some R, [])"
    by (subst read_headers.simps) (simp add: r0 r1 r2 r3)
  have rb: "read_body 65536 [] 3 10 = Inr (3, [])"
    by (subst read_body.simps) simp
  have p: "stress_test_parse_response [Chunk R]
     = Inr \<lparr>status = Some 200, body_length = 10, body_read = 3, rest = []\<rparr>"
    by (simp add: stress_test_parse_response_def Let_def rh r2 r4 r5 h rb)
  have z0: "Z \<noteq> []" unfolding Z_def by simp
  have z1: "length Z = 38" unfolding Z_def by code_simp
  have z: "sustained_worker_attempt (sustained_exchange [Chunk Z] 1) IntervalStats_init
     = \<lparr>iv_completed = 1, iv_failed = 0, iv_latencies = [1], iv_bytes_received = 38\<rparr>"
    by (simp add: sustained_exchange_def z0 z1 IntervalStats_record_def IntervalStats_init_def)
  from p z show ?thesis
    unfolding R_def Z_def by (simp add: stress_test_receive_def)
qed

end
